theory Spec2Isabelle
  imports Main
begin

section \<open>Instants and durations\<close>

text \<open>
  A Go \<open>time.Time\<close> held in a note or a task is modelled as an integer number of
  nanoseconds of wall-clock time whose origin is the zero \<open>time.Time\<close> (1 January of year
  1, UTC); its location is left out and it carries no monotonic reading, as after decoding
  from the store. A \<open>time.Duration\<close> is an \<open>int64\<close> count of nanoseconds, so \<open>Time.Sub\<close>
  saturates at the largest and smallest duration, as the library documents, and negating
  the smallest duration wraps to itself. Every call of \<open>time.Now()\<close> in the source is a
  parameter of the model; where its monotonic reading matters, in the reminder service,
  it is a value with both readings.
\<close>

type_synonym time = int
type_synonym duration = int

definition maxDuration :: duration where
  "maxDuration = 2 ^ 63 - 1"

definition minDuration :: duration where
  "minDuration = - (2 ^ 63)"

definition Hour :: duration where
  "Hour = 3600000000000"

definition time_Sub :: "time \<Rightarrow> time \<Rightarrow> duration" where
  "time_Sub t u =
     (if t - u > maxDuration then maxDuration
      else if t - u < minDuration then minDuration
      else t - u)"

definition neg_duration :: "duration \<Rightarrow> duration" where
  "neg_duration d = (if d = minDuration then minDuration else - d)"

definition time_Add :: "time \<Rightarrow> duration \<Rightarrow> time" where
  "time_Add t d = t + d"

definition time_Before :: "time \<Rightarrow> time \<Rightarrow> bool" where
  "time_Before t u = (t < u)"

definition time_After :: "time \<Rightarrow> time \<Rightarrow> bool" where
  "time_After t u = (t > u)"

section \<open>Models: notes\<close>

type_synonym NoteID = string
type_synonym TaskID = string
type_synonym Priority = int
type_synonym TaskStatus = int

definition LowPriority :: Priority where "LowPriority = 1"
definition MediumPriority :: Priority where "MediumPriority = 2"
definition HighPriority :: Priority where "HighPriority = 3"

record Note =
  ID :: NoteID
  Title :: string
  Content :: string
  CreatedAt :: time
  UpdatedAt :: time
  Tags :: "string list"
  Priority :: Priority
  IsCompleted :: bool
  DueDate :: time

text \<open>
  \<open>for i, t := range tags { if t == tag { ... } }\<close>: the index of the first element equal
  to \<open>tag\<close>, or \<open>None\<close> when the loop runs to its end.
\<close>

fun find_tag :: "string list \<Rightarrow> string \<Rightarrow> nat option" where
  "find_tag [] tag = None"
| "find_tag (x # xs) tag = (if x = tag then Some 0 else map_option Suc (find_tag xs tag))"

definition Note_AddTag :: "Note \<Rightarrow> string \<Rightarrow> time \<Rightarrow> Note" where
  "Note_AddTag n tag now =
     (case find_tag (Tags n) tag of
        Some i \<Rightarrow> n
      | None \<Rightarrow> n\<lparr>Tags := Tags n @ [tag], UpdatedAt := now\<rparr>)"

definition Note_RemoveTag :: "Note \<Rightarrow> string \<Rightarrow> time \<Rightarrow> Note" where
  "Note_RemoveTag n tag now =
     (case find_tag (Tags n) tag of
        Some i \<Rightarrow> n\<lparr>Tags := take i (Tags n) @ drop (i + 1) (Tags n), UpdatedAt := now\<rparr>
      | None \<Rightarrow> n)"

section \<open>Models: tasks\<close>

definition TaskStatusPending :: TaskStatus where "TaskStatusPending = 0"
definition TaskStatusInProgress :: TaskStatus where "TaskStatusInProgress = 1"
definition TaskStatusCompleted :: TaskStatus where "TaskStatusCompleted = 2"
definition TaskStatusOverdue :: TaskStatus where "TaskStatusOverdue = 3"

record Task =
  ID :: TaskID
  Title :: string
  Description :: string
  CreatedAt :: time
  UpdatedAt :: time
  DueDate :: time
  ReminderAt :: time
  Priority :: Priority
  Status :: TaskStatus
  Tags :: "string list"
  NoteID :: NoteID

text \<open>\<open>NewTask\<close>; the generated identifier is a parameter.\<close>

definition NewTask :: "TaskID \<Rightarrow> string \<Rightarrow> string \<Rightarrow> time \<Rightarrow> time \<Rightarrow> Task" where
  "NewTask newID title description dueDate now =
     \<lparr>ID = newID, Title = title, Description = description, CreatedAt = now,
      UpdatedAt = now, DueDate = dueDate, ReminderAt = time_Add dueDate (- 1 * Hour),
      Priority = MediumPriority, Status = TaskStatusPending, Tags = [], NoteID = []\<rparr>"

definition SetReminderTime :: "Task \<Rightarrow> time \<Rightarrow> time \<Rightarrow> Task" where
  "SetReminderTime t reminderAt now = t\<lparr>ReminderAt := reminderAt, UpdatedAt := now\<rparr>"

definition SetReminderPeriod :: "Task \<Rightarrow> duration \<Rightarrow> time \<Rightarrow> Task" where
  "SetReminderPeriod t period now =
     t\<lparr>ReminderAt := time_Add (DueDate t) (neg_duration period), UpdatedAt := now\<rparr>"

definition MarkInProgress :: "Task \<Rightarrow> time \<Rightarrow> Task" where
  "MarkInProgress t now = t\<lparr>Status := TaskStatusCompleted, UpdatedAt := now\<rparr>"

definition Task_Complete :: "Task \<Rightarrow> time \<Rightarrow> Task" where
  "Task_Complete t now = t\<lparr>Status := TaskStatusCompleted, UpdatedAt := now\<rparr>"

text \<open>
  \<open>Update\<close> assigns the due date first; the offset is then read from the task as already
  updated.
\<close>

definition Task_Update :: "Task \<Rightarrow> string \<Rightarrow> string \<Rightarrow> time \<Rightarrow> time \<Rightarrow> Task" where
  "Task_Update t title description dueDate now =
     (let t1 = t\<lparr>Title := title, Description := description, DueDate := dueDate,
                 UpdatedAt := now\<rparr>;
          offset = time_Sub (DueDate t1) (ReminderAt t1)
      in t1\<lparr>ReminderAt := time_Add dueDate (neg_duration offset)\<rparr>)"

definition IsOverDue :: "Task \<Rightarrow> time \<Rightarrow> bool" where
  "IsOverDue t now = (time_After now (DueDate t) \<and> Status t \<noteq> TaskStatusCompleted)"

definition UpdateStatus :: "Task \<Rightarrow> time \<Rightarrow> Task" where
  "UpdateStatus t now =
     (if Status t = TaskStatusCompleted then t
      else if IsOverDue t now then t\<lparr>Status := TaskStatusOverdue\<rparr>
      else t)"

definition Task_AddTag :: "Task \<Rightarrow> string \<Rightarrow> time \<Rightarrow> Task" where
  "Task_AddTag t tag now =
     (case find_tag (Tags t) tag of
        Some i \<Rightarrow> t
      | None \<Rightarrow> t\<lparr>Tags := Tags t @ [tag], UpdatedAt := now\<rparr>)"

text \<open>
  \<open>t.Tags = append(t.Tags, t.Tags[i+1:]...)\<close>: the first argument is the whole slice,
  not \<open>t.Tags[:i]\<close>.
\<close>

definition Task_RemoveTag :: "Task \<Rightarrow> string \<Rightarrow> time \<Rightarrow> Task" where
  "Task_RemoveTag t tag now =
     (case find_tag (Tags t) tag of
        Some i \<Rightarrow> t\<lparr>Tags := Tags t @ drop (i + 1) (Tags t), UpdatedAt := now\<rparr>
      | None \<Rightarrow> t)"

definition Task_SetPriority :: "Task \<Rightarrow> Priority \<Rightarrow> time \<Rightarrow> Task" where
  "Task_SetPriority t priority now = t\<lparr>Priority := priority, UpdatedAt := now\<rparr>"

definition LinkToNote :: "Task \<Rightarrow> NoteID \<Rightarrow> time \<Rightarrow> Task" where
  "LinkToNote t noteID now = t\<lparr>NoteID := noteID, UpdatedAt := now\<rparr>"

section \<open>Storage\<close>

text \<open>
  What is on disk at one of the two paths: no file, a file holding the JSON container of
  a list of records, or a file whose bytes do not parse (a strict prefix of a container
  never parses). Encoding and decoding a list of records are taken to be inverse.
\<close>

datatype 'a document = Absent | Stored "'a list" | Corrupt

record disk =
  notesFile :: "Note document"
  tasksFile :: "Task document"

datatype error = ReadFailed | ParseFailed | MarshalFailed | WriteFailed | NotFound

definition persistence_error :: "error \<Rightarrow> bool" where
  "persistence_error e = (e \<noteq> NotFound)"

text \<open>
  How a call of \<open>os.WriteFile\<close> ends. The library opens the file with
  \<open>O_WRONLY|O_CREATE|O_TRUNC\<close>, writes and closes: when the open fails nothing has
  changed, when the write fails the file is left truncated or partially written, when only
  the close fails the data has been written.
\<close>

datatype write_result = WriteOk | OpenFails | WriteFails | CloseFails

fun WriteFile :: "write_result \<Rightarrow> 'a list \<Rightarrow> 'a document \<Rightarrow> error option \<times> 'a document" where
  "WriteFile WriteOk xs f = (None, Stored xs)"
| "WriteFile OpenFails xs f = (Some WriteFailed, f)"
| "WriteFile WriteFails xs f = (Some WriteFailed, Corrupt)"
| "WriteFile CloseFails xs f = (Some WriteFailed, Stored xs)"

text \<open>
  The outcomes of the library calls of one storage operation, taken from the environment:
  \<open>os.ReadFile\<close> may fail, \<open>json.MarshalIndent\<close> of the data may fail (it does for an
  instant whose year is outside 0 to 9999); \<open>initWrite\<close> is how the write of the empty
  container ends when the file is missing, \<open>dataWrite\<close> how the write of the data ends.
  \<open>os.Stat\<close> is taken to report a missing file exactly when the file is missing.
\<close>

record io =
  readErr :: bool
  marshalErr :: bool
  initWrite :: write_result
  dataWrite :: write_result

definition io_ok :: io where
  "io_ok = \<lparr>readErr = False, marshalErr = False, initWrite = WriteOk, dataWrite = WriteOk\<rparr>"

definition saveNotes :: "bool \<Rightarrow> write_result \<Rightarrow> Note list \<Rightarrow> disk \<Rightarrow> error option \<times> disk" where
  "saveNotes mErr wr notes d =
     (if mErr then (Some MarshalFailed, d)
      else case WriteFile wr notes (notesFile d) of (err, f) \<Rightarrow> (err, d\<lparr>notesFile := f\<rparr>))"

definition saveTasks :: "bool \<Rightarrow> write_result \<Rightarrow> Task list \<Rightarrow> disk \<Rightarrow> error option \<times> disk" where
  "saveTasks mErr wr tasks d =
     (if mErr then (Some MarshalFailed, d)
      else case WriteFile wr tasks (tasksFile d) of (err, f) \<Rightarrow> (err, d\<lparr>tasksFile := f\<rparr>))"

text \<open>
  \<open>loadNotes\<close> and \<open>loadTasks\<close>: a missing file is created as the empty container (which
  always marshals) and the empty list is returned with the error of that write, which
  every caller checks first.
\<close>

definition loadNotes :: "io \<Rightarrow> disk \<Rightarrow> (error + Note list) \<times> disk" where
  "loadNotes env d =
     (case notesFile d of
        Absent \<Rightarrow>
          (case saveNotes False (initWrite env) [] d of
             (Some err, d') \<Rightarrow> (Inl err, d')
           | (None, d') \<Rightarrow> (Inr [], d'))
      | Corrupt \<Rightarrow> (if readErr env then (Inl ReadFailed, d) else (Inl ParseFailed, d))
      | Stored notes \<Rightarrow> (if readErr env then (Inl ReadFailed, d) else (Inr notes, d)))"

definition loadTasks :: "io \<Rightarrow> disk \<Rightarrow> (error + Task list) \<times> disk" where
  "loadTasks env d =
     (case tasksFile d of
        Absent \<Rightarrow>
          (case saveTasks False (initWrite env) [] d of
             (Some err, d') \<Rightarrow> (Inl err, d')
           | (None, d') \<Rightarrow> (Inr [], d'))
      | Corrupt \<Rightarrow> (if readErr env then (Inl ReadFailed, d) else (Inl ParseFailed, d))
      | Stored tasks \<Rightarrow> (if readErr env then (Inl ReadFailed, d) else (Inr tasks, d)))"

text \<open>
  \<open>for i, n := range xs { if n.ID == id { ... break } }\<close>: the index of the first record
  with the identifier.
\<close>

fun find_note :: "Note list \<Rightarrow> NoteID \<Rightarrow> nat option" where
  "find_note [] ident = None"
| "find_note (n # ns) ident =
     (if Note.ID n = ident then Some 0 else map_option Suc (find_note ns ident))"

fun find_task :: "Task list \<Rightarrow> TaskID \<Rightarrow> nat option" where
  "find_task [] ident = None"
| "find_task (t # ts) ident =
     (if ID t = ident then Some 0 else map_option Suc (find_task ts ident))"

definition SaveNote :: "io \<Rightarrow> Note \<Rightarrow> disk \<Rightarrow> error option \<times> disk" where
  "SaveNote env note d =
     (case loadNotes env d of
        (Inl err, d') \<Rightarrow> (Some err, d')
      | (Inr notes, d') \<Rightarrow>
          saveNotes (marshalErr env) (dataWrite env)
            (case find_note notes (Note.ID note) of
               Some i \<Rightarrow> notes[i := note]
             | None \<Rightarrow> notes @ [note])
            d')"

definition DeleteNote :: "io \<Rightarrow> NoteID \<Rightarrow> disk \<Rightarrow> error option \<times> disk" where
  "DeleteNote env ident d =
     (case loadNotes env d of
        (Inl err, d') \<Rightarrow> (Some err, d')
      | (Inr notes, d') \<Rightarrow>
          (case find_note notes ident of
             Some i \<Rightarrow>
               saveNotes (marshalErr env) (dataWrite env) (take i notes @ drop (i + 1) notes) d'
           | None \<Rightarrow> (Some NotFound, d')))"

definition SaveTask :: "io \<Rightarrow> Task \<Rightarrow> disk \<Rightarrow> error option \<times> disk" where
  "SaveTask env task d =
     (case loadTasks env d of
        (Inl err, d') \<Rightarrow> (Some err, d')
      | (Inr tasks, d') \<Rightarrow>
          saveTasks (marshalErr env) (dataWrite env)
            (case find_task tasks (ID task) of
               Some i \<Rightarrow> tasks[i := task]
             | None \<Rightarrow> tasks @ [task])
            d')"

definition DeleteTask :: "io \<Rightarrow> TaskID \<Rightarrow> disk \<Rightarrow> error option \<times> disk" where
  "DeleteTask env ident d =
     (case loadTasks env d of
        (Inl err, d') \<Rightarrow> (Some err, d')
      | (Inr tasks, d') \<Rightarrow>
          (case find_task tasks ident of
             Some i \<Rightarrow>
               saveTasks (marshalErr env) (dataWrite env) (take i tasks @ drop (i + 1) tasks) d'
           | None \<Rightarrow> (Some NotFound, d')))"

definition GetTasksDueBefore :: "io \<Rightarrow> time \<Rightarrow> disk \<Rightarrow> (error + Task list) \<times> disk" where
  "GetTasksDueBefore env tm d =
     (case loadTasks env d of
        (Inl err, d') \<Rightarrow> (Inl err, d')
      | (Inr allTasks, d') \<Rightarrow>
          (Inr (filter (\<lambda>task. time_Before (DueDate task) tm
                               \<and> Status task \<noteq> TaskStatusCompleted) allTasks), d'))"

definition GetTasksWithRemindersBy :: "io \<Rightarrow> time \<Rightarrow> disk \<Rightarrow> (error + Task list) \<times> disk" where
  "GetTasksWithRemindersBy env tm d =
     (case loadTasks env d of
        (Inl err, d') \<Rightarrow> (Inl err, d')
      | (Inr allTasks, d') \<Rightarrow>
          (Inr (filter (\<lambda>task. time_Before (ReminderAt task) tm
                               \<and> Status task \<noteq> TaskStatusCompleted) allTasks), d'))"

section \<open>The reminder service\<close>

text \<open>
  A value of \<open>time.Now()\<close> carries two readings, of the wall clock and of the process's
  monotonic clock (for wall clocks between the years 1885 and 2157, which is taken for
  granted). \<open>Time.Sub\<close> of two such values is the saturating difference of their
  monotonic readings, whatever the wall clocks say. An instant decoded from the tasks file
  carries no monotonic reading, so \<open>Before\<close> and \<open>After\<close> between such an instant and a
  value of \<open>time.Now()\<close> compare wall clocks. The two clocks need not advance together:
  the monotonic clock may stand still while the machine is suspended, and the wall clock
  may be set.
\<close>

record reading =
  wall :: time
  mono :: time

definition reading_Sub :: "reading \<Rightarrow> reading \<Rightarrow> duration" where
  "reading_Sub t u = time_Sub (mono t) (mono u)"

text \<open>
  What a tick does, in program order: the line printed when the query fails, the
  assignment \<open>r.sentReminders[task.ID] = now\<close>, the call of \<open>SaveTask\<close> with the task it
  is given and the error it returns, and the call of the notifier with the task it is
  given.
\<close>

datatype event =
    LogError error
  | LedgerRecorded TaskID reading
  | SaveTaskReturned Task "error option"
  | NotifierCalled Task

record service =
  storage :: disk
  sentReminders :: "TaskID \<rightharpoonup> reading"

text \<open>
  The environment of one tick: \<open>tickNow\<close> is the value of \<open>time.Now()\<close> at the start of
  \<open>checkReminders\<close>, \<open>queryIO\<close> the system calls of the query; for the task at position
  \<open>k\<close> of the query's result, \<open>clockAt k\<close> is the wall clock of \<open>time.Now()\<close> inside
  \<open>UpdateStatus\<close> (compared with the stored due date) and \<open>saveIO k\<close> the system calls
  of its \<open>SaveTask\<close>.
\<close>

record tick_env =
  tickNow :: reading
  queryIO :: io
  clockAt :: "nat \<Rightarrow> time"
  saveIO :: "nat \<Rightarrow> io"

text \<open>
  \<open>shouldSend := !found || now.Sub(lastSent) > 6*time.Hour\<close>: both \<open>now\<close> and \<open>lastSent\<close>
  are values of \<open>time.Now()\<close>.
\<close>

definition shouldSend :: "(TaskID \<rightharpoonup> reading) \<Rightarrow> TaskID \<Rightarrow> reading \<Rightarrow> bool" where
  "shouldSend ledger ident now =
     (case ledger ident of
        None \<Rightarrow> True
      | Some lastSent \<Rightarrow> reading_Sub now lastSent > 6 * Hour)"

text \<open>
  The loop \<open>for _, task := range tasks\<close> of \<open>checkReminders\<close>, from position \<open>k\<close> on. The
  error of \<open>SaveTask\<close> and the result of \<open>Notify\<close> are not looked at, as in the source.
\<close>

fun remind_loop :: "tick_env \<Rightarrow> nat \<Rightarrow> Task list \<Rightarrow> service \<Rightarrow> service \<times> event list" where
  "remind_loop env k [] r = (r, [])"
| "remind_loop env k (task # rest) r =
     (if shouldSend (sentReminders r) (ID task) (tickNow env) then
        (let r1 = r\<lparr>sentReminders := (sentReminders r)(ID task \<mapsto> tickNow env)\<rparr>;
             task' = UpdateStatus task (clockAt env k);
             (err, d) = SaveTask (saveIO env k) task' (storage r1);
             r2 = r1\<lparr>storage := d\<rparr>;
             (r3, evs) = remind_loop env (Suc k) rest r2
         in (r3, LedgerRecorded (ID task) (tickNow env) # SaveTaskReturned task' err #
                   NotifierCalled task' # evs))
      else remind_loop env (Suc k) rest r)"

text \<open>
  The sweep of the ledger at the end of the tick. In \<open>checkReminders\<close> the query gets the
  value \<open>now\<close> and compares the stored reminders with its wall clock.
\<close>

definition sweep :: "reading \<Rightarrow> (TaskID \<rightharpoonup> reading) \<Rightarrow> (TaskID \<rightharpoonup> reading)" where
  "sweep now ledger =
     (\<lambda>ident. case ledger ident of
        None \<Rightarrow> None
      | Some sentTime \<Rightarrow>
          if reading_Sub now sentTime > 24 * Hour then None else Some sentTime)"

definition checkReminders :: "tick_env \<Rightarrow> service \<Rightarrow> service \<times> event list" where
  "checkReminders env r =
     (case GetTasksWithRemindersBy (queryIO env) (wall (tickNow env)) (storage r) of
        (Inl err, d) \<Rightarrow> (r\<lparr>storage := d\<rparr>, [LogError err])
      | (Inr tasks, d) \<Rightarrow>
          (case remind_loop env 0 tasks (r\<lparr>storage := d\<rparr>) of
             (r', evs) \<Rightarrow> (r'\<lparr>sentReminders := sweep (tickNow env) (sentReminders r')\<rparr>, evs)))"

text \<open>The number of calls of the notifier for one task identifier among the events.\<close>

fun notified :: "TaskID \<Rightarrow> event list \<Rightarrow> nat" where
  "notified ident [] = 0"
| "notified ident (NotifierCalled task # evs) =
     (if ID task = ident then Suc (notified ident evs) else notified ident evs)"
| "notified ident (e # evs) = notified ident evs"

text \<open>
  The methods of \<open>Task\<close> as one datatype, so that a property can range over every
  operation of the model and over sequences of them.
\<close>

datatype task_op =
    OpSetReminderTime time
  | OpSetReminderPeriod duration
  | OpMarkInProgress
  | OpComplete
  | OpUpdate string string time
  | OpUpdateStatus
  | OpAddTag string
  | OpRemoveTag string
  | OpSetPriority Priority
  | OpLinkToNote NoteID

fun apply_task_op :: "Task \<Rightarrow> task_op \<times> time \<Rightarrow> Task" where
  "apply_task_op t (OpSetReminderTime reminderAt, now) = SetReminderTime t reminderAt now"
| "apply_task_op t (OpSetReminderPeriod period, now) = SetReminderPeriod t period now"
| "apply_task_op t (OpMarkInProgress, now) = MarkInProgress t now"
| "apply_task_op t (OpComplete, now) = Task_Complete t now"
| "apply_task_op t (OpUpdate title description dueDate, now) =
     Task_Update t title description dueDate now"
| "apply_task_op t (OpUpdateStatus, now) = UpdateStatus t now"
| "apply_task_op t (OpAddTag tag, now) = Task_AddTag t tag now"
| "apply_task_op t (OpRemoveTag tag, now) = Task_RemoveTag t tag now"
| "apply_task_op t (OpSetPriority priority, now) = Task_SetPriority t priority now"
| "apply_task_op t (OpLinkToNote noteID, now) = LinkToNote t noteID now"

text \<open>The events of two consecutive executions of \<open>checkReminders\<close>.\<close>

definition two_ticks :: "tick_env \<Rightarrow> tick_env \<Rightarrow> service \<Rightarrow> event list" where
  "two_ticks e1 e2 r =
     snd (checkReminders e1 r) @ snd (checkReminders e2 (fst (checkReminders e1 r)))"

text \<open>The records a collection holds; a missing or unreadable file holds none.\<close>

definition stored_notes :: "disk \<Rightarrow> Note list" where
  "stored_notes d = (case notesFile d of Stored ns \<Rightarrow> ns | _ \<Rightarrow> [])"

definition stored_tasks :: "disk \<Rightarrow> Task list" where
  "stored_tasks d = (case tasksFile d of Stored ts \<Rightarrow> ts | _ \<Rightarrow> [])"

section \<open>Example data\<close>

text \<open>A pending task with two tags, due at instant 100 with its reminder at 50.\<close>

definition task_ab :: Task where
  "task_ab = \<lparr>ID = ''t1'', Title = ''Pay rent'', Description = [], CreatedAt = 0,
      UpdatedAt = 0, DueDate = 100, ReminderAt = 50,
      Priority = MediumPriority, Status = TaskStatusPending, Tags = [''a'', ''b''],
      NoteID = []\<rparr>"

text \<open>A completed task whose due date has passed.\<close>

definition task_done :: Task where
  "task_done = task_ab\<lparr>ID := ''t2'', Status := TaskStatusCompleted\<rparr>"



text \<open>A store with no notes file and two tasks, the second one completed.\<close>

definition disk_two :: disk where
  "disk_two = \<lparr>notesFile = Absent, tasksFile = Stored [task_ab, task_done]\<rparr>"

text \<open>A note.\<close>

definition note_a :: Note where
  "note_a = \<lparr>Note.ID = ''n1'', Note.Title = ''Groceries'', Content = ''milk'', Note.CreatedAt = 0,
      Note.UpdatedAt = 0, Note.Tags = [], Note.Priority = MediumPriority, IsCompleted = False,
      Note.DueDate = 0\<rparr>"

text \<open>
  A tick in which every system call succeeds, with wall clock \<open>w\<close> and monotonic clock
  \<open>m\<close>; and the tick at instant \<open>n\<close> on both clocks.
\<close>

definition clock_tick :: "time \<Rightarrow> time \<Rightarrow> tick_env" where
  "clock_tick w m =
     \<lparr>tickNow = \<lparr>wall = w, mono = m\<rparr>, queryIO = io_ok, clockAt = (\<lambda>k. w),
      saveIO = (\<lambda>k. io_ok)\<rparr>"

definition quiet_tick :: "time \<Rightarrow> tick_env" where
  "quiet_tick n = clock_tick n n"

text \<open>The service as \<open>NewReminderService\<close> builds it: an empty ledger.\<close>

definition fresh_service :: "disk \<Rightarrow> service" where
  "fresh_service d = \<lparr>storage = d, sentReminders = Map.empty\<rparr>"

text \<open>A store with one note and two tasks.\<close>

definition disk_both :: disk where
  "disk_both = \<lparr>notesFile = Stored [note_a], tasksFile = Stored [task_ab, task_done]\<rparr>"

text \<open>A tick at instant \<open>n\<close> in which every \<open>SaveTask\<close> fails when it opens the file.\<close>

definition failing_tick :: "time \<Rightarrow> tick_env" where
  "failing_tick n = (quiet_tick n)\<lparr>saveIO := (\<lambda>k. io_ok\<lparr>dataWrite := OpenFails\<rparr>)\<rparr>"

text \<open>
  A tick at instant \<open>n\<close> in which the write step of every \<open>SaveTask\<close> fails, and one in
  which the query cannot read the tasks file.
\<close>

definition partial_write_tick :: "time \<Rightarrow> tick_env" where
  "partial_write_tick n = (quiet_tick n)\<lparr>saveIO := (\<lambda>k. io_ok\<lparr>dataWrite := WriteFails\<rparr>)\<rparr>"

definition unreadable_tick :: "time \<Rightarrow> tick_env" where
  "unreadable_tick n = (quiet_tick n)\<lparr>queryIO := io_ok\<lparr>readErr := True\<rparr>\<rparr>"

section \<open>Properties of the models\<close>

subsection \<open>Tags\<close>

lemma find_tag_None: "(find_tag xs tag = None) = (tag \<notin> set xs)"
  by (induction xs) auto

lemma distinct_remove_nth: "distinct xs \<Longrightarrow> distinct (take i xs @ drop (i + 1) xs)"
proof -
  assume d: "distinct xs"
  have "set (take i xs) \<inter> set (drop (i + 1) xs) \<subseteq> set (take i xs) \<inter> set (drop i xs)"
    using set_drop_subset_set_drop [of i "i + 1" xs] by auto
  moreover have "distinct (take i xs @ drop i xs)" using d by simp
  ultimately show ?thesis using d by (auto simp del: append_take_drop_id)
qed

lemma Note_AddTag_distinct:
  "distinct (Note.Tags n) \<Longrightarrow> distinct (Note.Tags (Note_AddTag n tag now))"
  by (auto simp: Note_AddTag_def find_tag_None split: option.splits)

lemma Note_RemoveTag_distinct:
  assumes "distinct (Note.Tags n)"
  shows "distinct (Note.Tags (Note_RemoveTag n tag now))"
proof (cases "find_tag (Note.Tags n) tag")
  case None
  then show ?thesis using assms by (simp add: Note_RemoveTag_def)
next
  case (Some i)
  have "distinct (take i (Note.Tags n) @ drop (i + 1) (Note.Tags n))"
    using assms by (rule distinct_remove_nth)
  then show ?thesis using Some by (simp add: Note_RemoveTag_def)
qed

lemma Task_AddTag_distinct: "distinct (Tags t) \<Longrightarrow> distinct (Tags (Task_AddTag t tag now))"
  by (auto simp: Task_AddTag_def find_tag_None split: option.splits)

text \<open>
  C7. Tag operations should keep a duplicate-free tag list duplicate-free. The three
  lemmas above show it for \<open>Note.AddTag\<close>, \<open>Note.RemoveTag\<close> and \<open>Task.AddTag\<close>.
  \<open>Task.RemoveTag\<close> does not: removing \<open>a\<close> from the tags \<open>[a, b]\<close> of a task yields
  \<open>[a, b, b]\<close>, which still holds \<open>a\<close> and holds \<open>b\<close> twice.
\<close>

theorem Task_RemoveTag_duplicates:
  "distinct (Tags task_ab) \<and>
   Tags (Task_RemoveTag task_ab ''a'' 7) = [''a'', ''b'', ''b''] \<and>
   \<not> distinct (Tags (Task_RemoveTag task_ab ''a'' 7))"
  by (simp add: Task_RemoveTag_def task_ab_def)

subsection \<open>Status\<close>

text \<open>
  C3. On a task whose status is Completed, any number of calls of \<open>UpdateStatus\<close>, at
  whatever readings of the clock and whatever the due date, leave the task as it is; its
  status stays Completed.
\<close>

theorem UpdateStatus_Completed_absorbing:
  "Status t = TaskStatusCompleted \<Longrightarrow>
     foldl UpdateStatus t nows = t \<and> Status (foldl UpdateStatus t nows) = TaskStatusCompleted"
  by (induction nows) (simp_all add: UpdateStatus_def)

theorem UpdateStatus_Completed_absorbing_witness:
  "Status task_done = TaskStatusCompleted \<and> DueDate task_done < 200 \<and>
   foldl UpdateStatus task_done [200, 300, 400] = task_done \<and>
   Status (foldl UpdateStatus task_done [200, 300, 400]) = TaskStatusCompleted"
proof -
  have h: "Status task_done = TaskStatusCompleted"
    by (simp add: task_done_def)
  have d: "DueDate task_done < 200"
    by (simp add: task_done_def task_ab_def)
  show ?thesis
    using h d UpdateStatus_Completed_absorbing [OF h, of "[200, 300, 400]"] by simp
qed

subsection \<open>Update and the reminder\<close>




subsection \<open>The operations of a task and the InProgress status\<close>

lemma apply_task_op_Status:
  "Status (apply_task_op t opn) = Status t \<or>
   Status (apply_task_op t opn) = TaskStatusCompleted \<or>
   Status (apply_task_op t opn) = TaskStatusOverdue"
  by (cases "(t, opn)" rule: apply_task_op.cases)
     (auto simp: SetReminderTime_def SetReminderPeriod_def MarkInProgress_def Task_Complete_def
        Task_Update_def Let_def UpdateStatus_def Task_AddTag_def Task_RemoveTag_def
        Task_SetPriority_def LinkToNote_def split: option.splits)

lemma foldl_apply_task_op_Status:
  "Status t \<noteq> TaskStatusInProgress \<Longrightarrow>
     Status (foldl apply_task_op t ops) \<noteq> TaskStatusInProgress"
proof (induction ops arbitrary: t)
  case Nil
  then show ?case by simp
next
  case (Cons opn ops)
  have "Status (apply_task_op t opn) \<noteq> TaskStatusInProgress"
    using apply_task_op_Status [of t opn] Cons.prems
    by (auto simp: TaskStatusInProgress_def TaskStatusCompleted_def TaskStatusOverdue_def)
  then show ?case using Cons.IH by simp
qed

text \<open>
  C9. \<open>MarkInProgress\<close> sets the status to Completed and is the same function as
  \<open>Complete\<close>; a new task is Pending, and no sequence of the model's operations, at any
  clock readings, takes a task that is not InProgress to InProgress.
\<close>

theorem MarkInProgress_completes:
  "Status (MarkInProgress t now) = TaskStatusCompleted \<and>
   MarkInProgress t now = Task_Complete t now \<and>
   Status (NewTask newID title description dueDate now) = TaskStatusPending \<and>
   (Status t \<noteq> TaskStatusInProgress \<longrightarrow>
      Status (foldl apply_task_op t ops) \<noteq> TaskStatusInProgress)"
  using foldl_apply_task_op_Status [of t ops]
  by (simp add: MarkInProgress_def Task_Complete_def NewTask_def)

theorem MarkInProgress_completes_witness:
  "Status task_ab \<noteq> TaskStatusInProgress \<and>
   Status (MarkInProgress task_ab 7) = TaskStatusCompleted \<and>
   Status (foldl apply_task_op task_ab [(OpMarkInProgress, 7), (OpUpdateStatus, 200)])
     \<noteq> TaskStatusInProgress"
proof -
  have h: "Status task_ab \<noteq> TaskStatusInProgress"
    by (simp add: task_ab_def TaskStatusPending_def TaskStatusInProgress_def)
  show ?thesis
    using h MarkInProgress_completes [of task_ab 7 "[]" "[]" "[]" 0
        "[(OpMarkInProgress, 7), (OpUpdateStatus, 200)]"]
    by blast
qed

section \<open>Properties of the storage\<close>

subsection \<open>Loading\<close>

lemma loadTasks_Inr:
  "loadTasks env d = (Inr ts, d') \<Longrightarrow>
     ts = stored_tasks d \<and> stored_tasks d' = ts \<and> notesFile d' = notesFile d \<and>
     (tasksFile d \<noteq> Absent \<longrightarrow> d' = d)"
  by (cases "tasksFile d"; cases "initWrite env")
     (auto simp: loadTasks_def saveTasks_def stored_tasks_def split: if_splits)

subsection \<open>Queries\<close>

text \<open>
  C6. When the tasks file is there and is read, \<open>GetTasksDueBefore\<close> returns, in stored
  order, exactly the stored tasks whose due date is strictly before the given instant and
  whose status is not Completed; and whatever the state of the disk and the outcome of the
  system calls, a result it returns is that selection of the stored tasks and holds no
  Completed task.
\<close>

theorem GetTasksDueBefore_exact:
  "(tasksFile d = Stored ts \<and> \<not> readErr env \<longrightarrow>
      GetTasksDueBefore env tm d =
        (Inr (filter (\<lambda>task. DueDate task < tm \<and> Status task \<noteq> TaskStatusCompleted) ts), d)) \<and>
   (fst (GetTasksDueBefore env tm d) = Inr res \<longrightarrow>
      res = filter (\<lambda>task. DueDate task < tm \<and> Status task \<noteq> TaskStatusCompleted)
              (stored_tasks d) \<and>
      (\<forall>task \<in> set res. Status task \<noteq> TaskStatusCompleted))"
proof -
  have a: "tasksFile d = Stored ts \<and> \<not> readErr env \<longrightarrow>
      GetTasksDueBefore env tm d =
        (Inr (filter (\<lambda>task. DueDate task < tm \<and> Status task \<noteq> TaskStatusCompleted) ts), d)"
    by (simp add: GetTasksDueBefore_def loadTasks_def time_Before_def)
  have b: "fst (GetTasksDueBefore env tm d) = Inr res \<longrightarrow>
      res = filter (\<lambda>task. DueDate task < tm \<and> Status task \<noteq> TaskStatusCompleted)
              (stored_tasks d)"
  proof (cases "loadTasks env d")
    case (Pair x d')
    then show ?thesis
      using loadTasks_Inr [of env d _ d']
      by (cases x) (auto simp: GetTasksDueBefore_def time_Before_def)
  qed
  from a b show ?thesis by auto
qed

theorem GetTasksDueBefore_exact_witness:
  "tasksFile disk_two = Stored [task_ab, task_done] \<and> \<not> readErr io_ok \<and>
   GetTasksDueBefore io_ok 150 disk_two = (Inr [task_ab], disk_two) \<and>
   Status task_ab \<noteq> TaskStatusCompleted"
proof -
  have f: "tasksFile disk_two = Stored [task_ab, task_done] \<and> \<not> readErr io_ok"
    by (simp add: disk_two_def io_ok_def)
  have g: "filter (\<lambda>task. DueDate task < 150 \<and> Status task \<noteq> TaskStatusCompleted)
             [task_ab, task_done] = [task_ab]"
    by (simp add: task_ab_def task_done_def TaskStatusPending_def TaskStatusCompleted_def)
  have a: "GetTasksDueBefore io_ok 150 disk_two =
      (Inr (filter (\<lambda>task. DueDate task < 150 \<and> Status task \<noteq> TaskStatusCompleted)
         [task_ab, task_done]), disk_two)"
    using f GetTasksDueBefore_exact [of disk_two "[task_ab, task_done]" io_ok 150 "[]"]
    by blast
  have h: "GetTasksDueBefore io_ok 150 disk_two = (Inr [task_ab], disk_two)"
    using a g by simp
  have s: "Status task_ab \<noteq> TaskStatusCompleted"
    by (simp add: task_ab_def TaskStatusPending_def TaskStatusCompleted_def)
  show ?thesis using f h s by blast
qed

subsection \<open>Saving\<close>

lemma find_task_Some:
  "find_task ts ident = Some i \<Longrightarrow>
     i < length ts \<and> ID (ts ! i) = ident \<and> (\<forall>j<i. ID (ts ! j) \<noteq> ident)"
proof (induction ts arbitrary: i)
  case Nil
  then show ?case by simp
next
  case (Cons t ts)
  show ?case
  proof (cases "ID t = ident")
    case True
    then show ?thesis using Cons.prems by simp
  next
    case False
    then obtain k where k: "find_task ts ident = Some k" and i: "i = Suc k"
      using Cons.prems by auto
    from Cons.IH [OF k] show ?thesis
      using False i by (auto simp: less_Suc_eq_0_disj)
  qed
qed

lemma find_task_None: "(find_task ts ident = None) = (ident \<notin> ID ` set ts)"
  by (induction ts) auto

lemma find_note_Some:
  "find_note ns ident = Some i \<Longrightarrow>
     i < length ns \<and> Note.ID (ns ! i) = ident \<and> (\<forall>j<i. Note.ID (ns ! j) \<noteq> ident)"
proof (induction ns arbitrary: i)
  case Nil
  then show ?case by simp
next
  case (Cons n ns)
  show ?case
  proof (cases "Note.ID n = ident")
    case True
    then show ?thesis using Cons.prems by simp
  next
    case False
    then obtain k where k: "find_note ns ident = Some k" and i: "i = Suc k"
      using Cons.prems by auto
    from Cons.IH [OF k] show ?thesis
      using False i by (auto simp: less_Suc_eq_0_disj)
  qed
qed

lemma find_note_None: "(find_note ns ident = None) = (ident \<notin> Note.ID ` set ns)"
  by (induction ns) auto

lemma loadTasks_io_ok:
  "tasksFile d \<noteq> Corrupt \<Longrightarrow>
     loadTasks io_ok d = (Inr (stored_tasks d), d\<lparr>tasksFile := Stored (stored_tasks d)\<rparr>)"
  by (cases "tasksFile d") (simp_all add: loadTasks_def saveTasks_def stored_tasks_def io_ok_def)

lemma loadNotes_io_ok:
  "notesFile d \<noteq> Corrupt \<Longrightarrow>
     loadNotes io_ok d = (Inr (stored_notes d), d\<lparr>notesFile := Stored (stored_notes d)\<rparr>)"
  by (cases "notesFile d") (simp_all add: loadNotes_def saveNotes_def stored_notes_def io_ok_def)

lemma SaveTask_io_ok:
  "tasksFile d \<noteq> Corrupt \<Longrightarrow>
     SaveTask io_ok x d =
       (None, d\<lparr>tasksFile := Stored (case find_task (stored_tasks d) (ID x) of
                                        Some i \<Rightarrow> (stored_tasks d)[i := x]
                                      | None \<Rightarrow> stored_tasks d @ [x])\<rparr>)"
  by (simp add: SaveTask_def loadTasks_io_ok saveTasks_def) (simp add: io_ok_def)

lemma SaveNote_io_ok:
  "notesFile d \<noteq> Corrupt \<Longrightarrow>
     SaveNote io_ok x d =
       (None, d\<lparr>notesFile := Stored (case find_note (stored_notes d) (Note.ID x) of
                                        Some i \<Rightarrow> (stored_notes d)[i := x]
                                      | None \<Rightarrow> stored_notes d @ [x])\<rparr>)"
  by (simp add: SaveNote_def loadNotes_io_ok saveNotes_def) (simp add: io_ok_def)

text \<open>
  C5. When every system call succeeds and the collection's file is missing or parses,
  \<open>SaveTask\<close> and \<open>SaveNote\<close> succeed and store a new list: if a stored record has the
  identifier of the saved one, the first such record is replaced at its position (the list
  keeps its length and every other position), otherwise the saved record is appended at
  the end. A missing file counts as the empty list.
\<close>

theorem Save_upsert:
  "(tasksFile d \<noteq> Corrupt \<longrightarrow>
      (\<exists>ts'. SaveTask io_ok x d = (None, d\<lparr>tasksFile := Stored ts'\<rparr>) \<and>
         (ID x \<in> ID ` set (stored_tasks d) \<longrightarrow>
            (\<exists>i<length (stored_tasks d). ID (stored_tasks d ! i) = ID x \<and>
               (\<forall>j<i. ID (stored_tasks d ! j) \<noteq> ID x) \<and>
               ts' = (stored_tasks d)[i := x] \<and> length ts' = length (stored_tasks d))) \<and>
         (ID x \<notin> ID ` set (stored_tasks d) \<longrightarrow> ts' = stored_tasks d @ [x]))) \<and>
   (notesFile d \<noteq> Corrupt \<longrightarrow>
      (\<exists>ns'. SaveNote io_ok y d = (None, d\<lparr>notesFile := Stored ns'\<rparr>) \<and>
         (Note.ID y \<in> Note.ID ` set (stored_notes d) \<longrightarrow>
            (\<exists>i<length (stored_notes d). Note.ID (stored_notes d ! i) = Note.ID y \<and>
               (\<forall>j<i. Note.ID (stored_notes d ! j) \<noteq> Note.ID y) \<and>
               ns' = (stored_notes d)[i := y] \<and> length ns' = length (stored_notes d))) \<and>
         (Note.ID y \<notin> Note.ID ` set (stored_notes d) \<longrightarrow> ns' = stored_notes d @ [y])))"
proof -
  have tpart: "\<exists>ts'. SaveTask io_ok x d = (None, d\<lparr>tasksFile := Stored ts'\<rparr>) \<and>
         (ID x \<in> ID ` set (stored_tasks d) \<longrightarrow>
            (\<exists>i<length (stored_tasks d). ID (stored_tasks d ! i) = ID x \<and>
               (\<forall>j<i. ID (stored_tasks d ! j) \<noteq> ID x) \<and>
               ts' = (stored_tasks d)[i := x] \<and> length ts' = length (stored_tasks d))) \<and>
         (ID x \<notin> ID ` set (stored_tasks d) \<longrightarrow> ts' = stored_tasks d @ [x])"
    if ok: "tasksFile d \<noteq> Corrupt"
  proof (cases "find_task (stored_tasks d) (ID x)")
    case None
    then have "ID x \<notin> ID ` set (stored_tasks d)" by (simp add: find_task_None)
    then show ?thesis using SaveTask_io_ok [OF ok, of x] None by simp
  next
    case (Some i)
    note fs = find_task_Some [OF Some]
    have eq: "SaveTask io_ok x d = (None, d\<lparr>tasksFile := Stored ((stored_tasks d)[i := x])\<rparr>)"
      using SaveTask_io_ok [OF ok, of x] Some by simp
    have ex: "\<exists>k<length (stored_tasks d). ID (stored_tasks d ! k) = ID x \<and>
               (\<forall>j<k. ID (stored_tasks d ! j) \<noteq> ID x) \<and>
               (stored_tasks d)[i := x] = (stored_tasks d)[k := x] \<and>
               length ((stored_tasks d)[i := x]) = length (stored_tasks d)"
      using fs by (intro exI [of _ i]) simp
    have mem: "ID x \<in> ID ` set (stored_tasks d)"
      using find_task_None [of "stored_tasks d" "ID x"] Some by simp
    show ?thesis
      using eq ex mem by (intro exI [of _ "(stored_tasks d)[i := x]"]) blast
  qed
  have npart: "\<exists>ns'. SaveNote io_ok y d = (None, d\<lparr>notesFile := Stored ns'\<rparr>) \<and>
         (Note.ID y \<in> Note.ID ` set (stored_notes d) \<longrightarrow>
            (\<exists>i<length (stored_notes d). Note.ID (stored_notes d ! i) = Note.ID y \<and>
               (\<forall>j<i. Note.ID (stored_notes d ! j) \<noteq> Note.ID y) \<and>
               ns' = (stored_notes d)[i := y] \<and> length ns' = length (stored_notes d))) \<and>
         (Note.ID y \<notin> Note.ID ` set (stored_notes d) \<longrightarrow> ns' = stored_notes d @ [y])"
    if ok: "notesFile d \<noteq> Corrupt"
  proof (cases "find_note (stored_notes d) (Note.ID y)")
    case None
    then have "Note.ID y \<notin> Note.ID ` set (stored_notes d)" by (simp add: find_note_None)
    then show ?thesis using SaveNote_io_ok [OF ok, of y] None by simp
  next
    case (Some i)
    note fs = find_note_Some [OF Some]
    have eq: "SaveNote io_ok y d = (None, d\<lparr>notesFile := Stored ((stored_notes d)[i := y])\<rparr>)"
      using SaveNote_io_ok [OF ok, of y] Some by simp
    have ex: "\<exists>k<length (stored_notes d). Note.ID (stored_notes d ! k) = Note.ID y \<and>
               (\<forall>j<k. Note.ID (stored_notes d ! j) \<noteq> Note.ID y) \<and>
               (stored_notes d)[i := y] = (stored_notes d)[k := y] \<and>
               length ((stored_notes d)[i := y]) = length (stored_notes d)"
      using fs by (intro exI [of _ i]) simp
    have mem: "Note.ID y \<in> Note.ID ` set (stored_notes d)"
      using find_note_None [of "stored_notes d" "Note.ID y"] Some by simp
    show ?thesis
      using eq ex mem by (intro exI [of _ "(stored_notes d)[i := y]"]) blast
  qed
  from tpart npart show ?thesis by blast
qed

theorem Save_upsert_witness:
  "tasksFile disk_two \<noteq> Corrupt \<and> notesFile disk_two \<noteq> Corrupt \<and>
   SaveTask io_ok (task_done\<lparr>Title := ''Done''\<rparr>) disk_two =
     (None, disk_two\<lparr>tasksFile := Stored [task_ab, task_done\<lparr>Title := ''Done''\<rparr>]\<rparr>) \<and>
   SaveNote io_ok note_a disk_two = (None, disk_two\<lparr>notesFile := Stored [note_a]\<rparr>)"
proof -
  let ?x = "task_done\<lparr>Title := ''Done''\<rparr>"
  have ok: "tasksFile disk_two \<noteq> Corrupt" "notesFile disk_two \<noteq> Corrupt"
    by (simp_all add: disk_two_def)
  have st: "stored_tasks disk_two = [task_ab, task_done]" "stored_notes disk_two = []"
    by (simp_all add: stored_tasks_def stored_notes_def disk_two_def)
  have m: "ID ?x \<in> ID ` set (stored_tasks disk_two)"
    by (simp add: st task_done_def)
  have n: "Note.ID note_a \<notin> Note.ID ` set (stored_notes disk_two)"
    by (simp add: st)
  note T = Save_upsert [of disk_two ?x note_a]
  from T ok m obtain ts' i where
    eq: "SaveTask io_ok ?x disk_two = (None, disk_two\<lparr>tasksFile := Stored ts'\<rparr>)" and
    i: "i < length (stored_tasks disk_two)" "ID (stored_tasks disk_two ! i) = ID ?x" and
    ts': "ts' = (stored_tasks disk_two)[i := ?x]"
    by blast
  have "i = 1"
    using i by (cases i) (simp_all add: st task_done_def task_ab_def)
  then have a: "SaveTask io_ok ?x disk_two =
      (None, disk_two\<lparr>tasksFile := Stored [task_ab, ?x]\<rparr>)"
    using eq ts' by (simp add: st)
  from T ok n obtain ns' where
    "SaveNote io_ok note_a disk_two = (None, disk_two\<lparr>notesFile := Stored ns'\<rparr>)"
    "ns' = stored_notes disk_two @ [note_a]"
    by blast
  then have b: "SaveNote io_ok note_a disk_two = (None, disk_two\<lparr>notesFile := Stored [note_a]\<rparr>)"
    by (simp add: st)
  show ?thesis using ok a b by blast
qed

subsection \<open>Failing calls\<close>

text \<open>
  C2, as the claim states it, fails: the data is written in place by \<open>os.WriteFile\<close>,
  with no temporary file and no atomic replacement. When the write step fails, \<open>SaveTask\<close>
  returns the error and the tasks file is left as bytes that do not parse, so the two
  stored tasks are gone and the next query fails.
\<close>

theorem SaveTask_partial_write_counterexample:
  "SaveTask (io_ok\<lparr>dataWrite := WriteFails\<rparr>) (task_done\<lparr>Title := ''Done''\<rparr>) disk_both =
     (Some WriteFailed, disk_both\<lparr>tasksFile := Corrupt\<rparr>) \<and>
   persistence_error WriteFailed \<and>
   snd (SaveTask (io_ok\<lparr>dataWrite := WriteFails\<rparr>) (task_done\<lparr>Title := ''Done''\<rparr>) disk_both)
     \<noteq> disk_both \<and>
   fst (GetTasksDueBefore io_ok 150
     (snd (SaveTask (io_ok\<lparr>dataWrite := WriteFails\<rparr>) (task_done\<lparr>Title := ''Done''\<rparr>)
        disk_both))) = Inl ParseFailed"
  by (simp add: SaveTask_def loadTasks_def saveTasks_def io_ok_def disk_both_def
      persistence_error_def GetTasksDueBefore_def task_done_def task_ab_def)

lemma load_fail_keeps:
  "tasksFile d \<noteq> Absent \<Longrightarrow> loadTasks env d = (res, d') \<Longrightarrow> d' = d"
  "notesFile d \<noteq> Absent \<Longrightarrow> loadNotes env d = (nres, d') \<Longrightarrow> d' = d"
  by (cases "tasksFile d"; auto simp: loadTasks_def split: if_splits)
     (cases "notesFile d"; auto simp: loadNotes_def split: if_splits)

lemma save_fail_keeps:
  "dataWrite env = WriteOk \<or> dataWrite env = OpenFails \<Longrightarrow>
     fst (saveTasks m (dataWrite env) ts d) \<noteq> None \<Longrightarrow> snd (saveTasks m (dataWrite env) ts d) = d"
  "dataWrite env = WriteOk \<or> dataWrite env = OpenFails \<Longrightarrow>
     fst (saveNotes m (dataWrite env) ns d) \<noteq> None \<Longrightarrow> snd (saveNotes m (dataWrite env) ns d) = d"
  by (auto simp: saveTasks_def saveNotes_def split: if_splits)

text \<open>
  C2, amended. When the collection's file exists and \<open>os.WriteFile\<close> does not fail in
  its write or close step, a call of \<open>SaveTask\<close>, \<open>DeleteTask\<close>, \<open>SaveNote\<close> or
  \<open>DeleteNote\<close> that returns an error (from reading, parsing, marshalling or opening the
  file, or because the identifier is not found) leaves the disk exactly as it was.
\<close>

theorem failed_call_keeps_disk:
  assumes w: "dataWrite env = WriteOk \<or> dataWrite env = OpenFails"
  shows
  "(tasksFile d \<noteq> Absent \<and> fst (SaveTask env x d) \<noteq> None \<longrightarrow> snd (SaveTask env x d) = d) \<and>
   (tasksFile d \<noteq> Absent \<and> fst (DeleteTask env tid d) \<noteq> None \<longrightarrow>
      snd (DeleteTask env tid d) = d) \<and>
   (notesFile d \<noteq> Absent \<and> fst (SaveNote env y d) \<noteq> None \<longrightarrow> snd (SaveNote env y d) = d) \<and>
   (notesFile d \<noteq> Absent \<and> fst (DeleteNote env nid d) \<noteq> None \<longrightarrow>
      snd (DeleteNote env nid d) = d)"
proof -
  have a: "snd (SaveTask env x d) = d"
    if "tasksFile d \<noteq> Absent" "fst (SaveTask env x d) \<noteq> None"
  proof (cases "loadTasks env d")
    case (Pair res d')
    then have "d' = d" using load_fail_keeps(1) that(1) by blast
    then show ?thesis
      using Pair that(2) save_fail_keeps(1) [OF w]
      by (cases res) (auto simp: SaveTask_def)
  qed
  have b: "snd (DeleteTask env tid d) = d"
    if "tasksFile d \<noteq> Absent" "fst (DeleteTask env tid d) \<noteq> None"
  proof (cases "loadTasks env d")
    case (Pair res d')
    then have "d' = d" using load_fail_keeps(1) that(1) by blast
    then show ?thesis
      using Pair that(2) save_fail_keeps(1) [OF w]
      by (cases res) (auto simp: DeleteTask_def split: option.splits)
  qed
  have c: "snd (SaveNote env y d) = d"
    if "notesFile d \<noteq> Absent" "fst (SaveNote env y d) \<noteq> None"
  proof (cases "loadNotes env d")
    case (Pair res d')
    then have "d' = d" using load_fail_keeps(2) that(1) by blast
    then show ?thesis
      using Pair that(2) save_fail_keeps(2) [OF w]
      by (cases res) (auto simp: SaveNote_def)
  qed
  have e: "snd (DeleteNote env nid d) = d"
    if "notesFile d \<noteq> Absent" "fst (DeleteNote env nid d) \<noteq> None"
  proof (cases "loadNotes env d")
    case (Pair res d')
    then have "d' = d" using load_fail_keeps(2) that(1) by blast
    then show ?thesis
      using Pair that(2) save_fail_keeps(2) [OF w]
      by (cases res) (auto simp: DeleteNote_def split: option.splits)
  qed
  from a b c e show ?thesis by blast
qed

theorem failed_call_keeps_disk_witness:
  "dataWrite (io_ok\<lparr>dataWrite := OpenFails\<rparr>) = OpenFails \<and>
   tasksFile disk_both \<noteq> Absent \<and> notesFile disk_both \<noteq> Absent \<and>
   SaveTask (io_ok\<lparr>dataWrite := OpenFails\<rparr>) (task_done\<lparr>Title := ''Done''\<rparr>) disk_both =
     (Some WriteFailed, disk_both) \<and>
   DeleteTask (io_ok\<lparr>dataWrite := OpenFails\<rparr>) ''t1'' disk_both = (Some WriteFailed, disk_both) \<and>
   SaveNote (io_ok\<lparr>dataWrite := OpenFails\<rparr>) note_a disk_both = (Some WriteFailed, disk_both) \<and>
   DeleteNote (io_ok\<lparr>dataWrite := OpenFails\<rparr>) ''n1'' disk_both = (Some WriteFailed, disk_both)"
proof -
  let ?env = "io_ok\<lparr>dataWrite := OpenFails\<rparr>"
  let ?x = "task_done\<lparr>Title := ''Done''\<rparr>"
  have w: "dataWrite ?env = WriteOk \<or> dataWrite ?env = OpenFails"
    by simp
  have p: "tasksFile disk_both \<noteq> Absent" "notesFile disk_both \<noteq> Absent"
    by (simp_all add: disk_both_def)
  have f: "fst (SaveTask ?env ?x disk_both) = Some WriteFailed"
    "fst (DeleteTask ?env ''t1'' disk_both) = Some WriteFailed"
    "fst (SaveNote ?env note_a disk_both) = Some WriteFailed"
    "fst (DeleteNote ?env ''n1'' disk_both) = Some WriteFailed"
    by (simp_all add: SaveTask_def DeleteTask_def SaveNote_def DeleteNote_def loadTasks_def
        loadNotes_def saveTasks_def saveNotes_def io_ok_def disk_both_def task_done_def
        task_ab_def note_a_def)
  note T = failed_call_keeps_disk [OF w, of disk_both ?x "''t1''" note_a "''n1''"]
  have s: "snd (SaveTask ?env ?x disk_both) = disk_both"
    "snd (DeleteTask ?env ''t1'' disk_both) = disk_both"
    "snd (SaveNote ?env note_a disk_both) = disk_both"
    "snd (DeleteNote ?env ''n1'' disk_both) = disk_both"
    using T p f by simp_all
  show ?thesis
    using p f s by (simp add: prod_eq_iff)
qed

section \<open>Properties of the reminder service\<close>

text \<open>The definitions unfolded to run a tick on the example data.\<close>

lemmas tick_eval =
  checkReminders_def GetTasksWithRemindersBy_def loadTasks_def io_ok_def disk_both_def
  quiet_tick_def clock_tick_def failing_tick_def fresh_service_def stored_tasks_def time_Before_def
  task_ab_def task_done_def
  TaskStatusPending_def TaskStatusCompleted_def TaskStatusOverdue_def shouldSend_def
  UpdateStatus_def IsOverDue_def time_After_def Let_def SaveTask_def saveTasks_def
  sweep_def reading_Sub_def time_Sub_def maxDuration_def minDuration_def Hour_def
  partial_write_tick_def unreadable_tick_def

subsection \<open>The tasks a tick processes\<close>

lemma UpdateStatus_fields:
  "ID (UpdateStatus t now) = ID t" "ReminderAt (UpdateStatus t now) = ReminderAt t"
  "(Status (UpdateStatus t now) = TaskStatusCompleted) = (Status t = TaskStatusCompleted)"
  by (auto simp: UpdateStatus_def TaskStatusCompleted_def TaskStatusOverdue_def)

lemma remind_loop_notified_tasks:
  "\<forall>task \<in> set tasks. ReminderAt task < n \<and> Status task \<noteq> TaskStatusCompleted \<Longrightarrow>
   NotifierCalled task' \<in> set (snd (remind_loop env k tasks r)) \<Longrightarrow>
   ReminderAt task' < n \<and> Status task' \<noteq> TaskStatusCompleted"
proof (induction tasks arbitrary: k r)
  case Nil
  then show ?case by simp
next
  case (Cons task rest)
  then show ?case
    by (auto simp: Let_def UpdateStatus_fields split: if_splits prod.splits)
       (metis snd_conv)+
qed

lemma GetTasksWithRemindersBy_Inr:
  "GetTasksWithRemindersBy qio n d = (Inr tasks, d') \<Longrightarrow>
     tasks = filter (\<lambda>task. ReminderAt task < n \<and> Status task \<noteq> TaskStatusCompleted)
               (stored_tasks d)"
proof (cases "loadTasks qio d")
  case (Pair x d'')
  assume "GetTasksWithRemindersBy qio n d = (Inr tasks, d')"
  then show ?thesis
    using Pair loadTasks_Inr [of qio d _ d'']
    by (cases x) (auto simp: GetTasksWithRemindersBy_def time_Before_def)
qed

text \<open>
  C4, as the claim states it, fails: the query compares with \<open>Before\<close>, which is strict.
  A pending task whose reminder is exactly the instant of the tick is not returned by the
  query and the tick does nothing for it; one nanosecond later it is processed.
\<close>

theorem checkReminders_at_reminder_counterexample:
  "ReminderAt task_ab = 50 \<and> Status task_ab \<noteq> TaskStatusCompleted \<and>
   task_ab \<in> set (stored_tasks disk_both) \<and>
   GetTasksWithRemindersBy io_ok 50 disk_both = (Inr [], disk_both) \<and>
   snd (checkReminders (quiet_tick 50) (fresh_service disk_both)) = [] \<and>
   snd (checkReminders (quiet_tick 51) (fresh_service disk_both)) =
     [LedgerRecorded ''t1'' \<lparr>wall = 51, mono = 51\<rparr>, SaveTaskReturned task_ab None,
      NotifierCalled task_ab]"
  by (simp add: checkReminders_def GetTasksWithRemindersBy_def loadTasks_def io_ok_def
      disk_both_def quiet_tick_def clock_tick_def fresh_service_def stored_tasks_def time_Before_def
      task_ab_def task_done_def TaskStatusPending_def TaskStatusCompleted_def shouldSend_def
      UpdateStatus_def IsOverDue_def time_After_def Let_def SaveTask_def saveTasks_def)

text \<open>
  C4, amended. When the tasks file is there and is read, the tasks a tick processes (the
  list its loop runs over) are exactly the stored tasks whose status is not Completed and
  whose reminder is strictly before the instant \<open>now\<close> captured at the start of the tick
  (its wall clock); and in any tick, every task handed to the notifier has its reminder
  strictly before \<open>now\<close> and is not Completed.
\<close>

theorem checkReminders_processes:
  "(tasksFile (storage r) = Stored ts \<and> \<not> readErr (queryIO env) \<longrightarrow>
      GetTasksWithRemindersBy (queryIO env) (wall (tickNow env)) (storage r) =
        (Inr (filter (\<lambda>task. ReminderAt task < wall (tickNow env) \<and>
                               Status task \<noteq> TaskStatusCompleted) ts), storage r) \<and>
      checkReminders env r =
        (case remind_loop env 0
                (filter (\<lambda>task. ReminderAt task < wall (tickNow env) \<and>
                                  Status task \<noteq> TaskStatusCompleted) ts) r of
           (r', evs) \<Rightarrow> (r'\<lparr>sentReminders := sweep (tickNow env) (sentReminders r')\<rparr>, evs))) \<and>
   (NotifierCalled task \<in> set (snd (checkReminders env r)) \<longrightarrow>
      ReminderAt task < wall (tickNow env) \<and> Status task \<noteq> TaskStatusCompleted)"
proof -
  have a: "GetTasksWithRemindersBy (queryIO env) (wall (tickNow env)) (storage r) =
        (Inr (filter (\<lambda>task. ReminderAt task < wall (tickNow env) \<and>
                               Status task \<noteq> TaskStatusCompleted) ts), storage r)"
    if "tasksFile (storage r) = Stored ts" "\<not> readErr (queryIO env)"
    using that by (simp add: GetTasksWithRemindersBy_def loadTasks_def time_Before_def)
  have b: "checkReminders env r =
        (case remind_loop env 0
                (filter (\<lambda>task. ReminderAt task < wall (tickNow env) \<and>
                                  Status task \<noteq> TaskStatusCompleted) ts) r of
           (r', evs) \<Rightarrow> (r'\<lparr>sentReminders := sweep (tickNow env) (sentReminders r')\<rparr>, evs))"
    if "tasksFile (storage r) = Stored ts" "\<not> readErr (queryIO env)"
    using a [OF that] by (simp add: checkReminders_def)
  have c: "ReminderAt task < wall (tickNow env) \<and> Status task \<noteq> TaskStatusCompleted"
    if n: "NotifierCalled task \<in> set (snd (checkReminders env r))"
  proof (cases "GetTasksWithRemindersBy (queryIO env) (wall (tickNow env)) (storage r)")
    case (Pair res d')
    show ?thesis
    proof (cases res)
      case (Inl err)
      then show ?thesis using n Pair by (simp add: checkReminders_def)
    next
      case (Inr tasks)
      have q: "\<forall>x \<in> set tasks. ReminderAt x < wall (tickNow env) \<and> Status x \<noteq> TaskStatusCompleted"
        using GetTasksWithRemindersBy_Inr [of "queryIO env" "wall (tickNow env)" "storage r" tasks d']
          Pair Inr by simp
      have "NotifierCalled task \<in>
          set (snd (remind_loop env 0 tasks (r\<lparr>storage := d'\<rparr>)))"
        using n Pair Inr by (simp add: checkReminders_def split: prod.splits)
      then show ?thesis using remind_loop_notified_tasks [OF q] by blast
    qed
  qed
  from a b c show ?thesis by blast
qed

theorem checkReminders_processes_witness:
  "tasksFile (storage (fresh_service disk_both)) = Stored [task_ab, task_done] \<and>
   \<not> readErr (queryIO (quiet_tick 51)) \<and>
   GetTasksWithRemindersBy (queryIO (quiet_tick 51)) (wall (tickNow (quiet_tick 51)))
     (storage (fresh_service disk_both)) = (Inr [task_ab], storage (fresh_service disk_both)) \<and>
   NotifierCalled task_ab \<in> set (snd (checkReminders (quiet_tick 51) (fresh_service disk_both))) \<and>
   ReminderAt task_ab < wall (tickNow (quiet_tick 51))"
proof -
  have h: "tasksFile (storage (fresh_service disk_both)) = Stored [task_ab, task_done] \<and>
      \<not> readErr (queryIO (quiet_tick 51))"
    by (simp add: fresh_service_def disk_both_def quiet_tick_def clock_tick_def io_ok_def)
  have f: "filter (\<lambda>task. ReminderAt task < wall (tickNow (quiet_tick 51)) \<and>
                            Status task \<noteq> TaskStatusCompleted) [task_ab, task_done] = [task_ab]"
    by (simp add: quiet_tick_def clock_tick_def task_ab_def task_done_def TaskStatusPending_def
        TaskStatusCompleted_def)
  have n: "NotifierCalled task_ab \<in>
      set (snd (checkReminders (quiet_tick 51) (fresh_service disk_both)))"
    by (simp add: tick_eval)
  note T = checkReminders_processes
    [of "fresh_service disk_both" "[task_ab, task_done]" "quiet_tick 51" task_ab]
  from T h have "GetTasksWithRemindersBy (queryIO (quiet_tick 51)) (wall (tickNow (quiet_tick 51)))
        (storage (fresh_service disk_both)) =
      (Inr (filter (\<lambda>task. ReminderAt task < wall (tickNow (quiet_tick 51)) \<and>
                            Status task \<noteq> TaskStatusCompleted) [task_ab, task_done]),
       storage (fresh_service disk_both))"
    by blast
  then have g: "GetTasksWithRemindersBy (queryIO (quiet_tick 51)) (wall (tickNow (quiet_tick 51)))
     (storage (fresh_service disk_both)) = (Inr [task_ab], storage (fresh_service disk_both))"
    using f by simp
  from T n have r: "ReminderAt task_ab < wall (tickNow (quiet_tick 51))"
    by blast
  show ?thesis using h g n r by blast
qed

subsection \<open>The loop over the due tasks\<close>

lemma reading_Sub_self: "\<not> reading_Sub n n > 6 * Hour" "\<not> reading_Sub n n > 24 * Hour"
  by (simp_all add: reading_Sub_def time_Sub_def maxDuration_def minDuration_def Hour_def)

lemma reading_Sub_gt: "(reading_Sub a b > 6 * Hour) = (mono a - mono b > 6 * Hour)"
  by (auto simp: reading_Sub_def time_Sub_def maxDuration_def minDuration_def Hour_def)

lemma shouldSend_upd:
  "shouldSend (m(i \<mapsto> n)) j n = (j \<noteq> i \<and> shouldSend m j n)"
  by (simp add: shouldSend_def reading_Sub_self)

lemma shouldSend_upd_fun:
  "shouldSend (\<lambda>a. if a = i then Some n else m a) j n = (j \<noteq> i \<and> shouldSend m j n)"
  by (simp add: shouldSend_def reading_Sub_self)

lemma remind_loop_send:
  assumes "shouldSend (sentReminders r) (ID task) (tickNow env)"
  shows "remind_loop env k (task # rest) r =
    (fst (remind_loop env (Suc k) rest
       (r\<lparr>sentReminders := (sentReminders r)(ID task \<mapsto> tickNow env),
          storage := snd (SaveTask (saveIO env k) (UpdateStatus task (clockAt env k))
                           (storage r))\<rparr>)),
     LedgerRecorded (ID task) (tickNow env) #
     SaveTaskReturned (UpdateStatus task (clockAt env k))
       (fst (SaveTask (saveIO env k) (UpdateStatus task (clockAt env k)) (storage r))) #
     NotifierCalled (UpdateStatus task (clockAt env k)) #
     snd (remind_loop env (Suc k) rest
       (r\<lparr>sentReminders := (sentReminders r)(ID task \<mapsto> tickNow env),
          storage := snd (SaveTask (saveIO env k) (UpdateStatus task (clockAt env k))
                           (storage r))\<rparr>)))"
  using assms by (simp add: Let_def case_prod_beta)

lemma remind_loop_skip:
  assumes "\<not> shouldSend (sentReminders r) (ID task) (tickNow env)"
  shows "remind_loop env k (task # rest) r = remind_loop env (Suc k) rest r"
  using assms by simp

lemma remind_loop_ledger:
  "sentReminders (fst (remind_loop env k tasks r)) i =
     (if i \<in> ID ` set tasks \<and> shouldSend (sentReminders r) i (tickNow env)
      then Some (tickNow env) else sentReminders r i)"
proof (induction tasks arbitrary: k r i)
  case Nil
  then show ?case by simp
next
  case (Cons task rest)
  show ?case
  proof (cases "shouldSend (sentReminders r) (ID task) (tickNow env)")
    case True
    show ?thesis
    proof (cases "i = ID task")
      case True
      then show ?thesis
        using \<open>shouldSend (sentReminders r) (ID task) (tickNow env)\<close>
        by (simp add: remind_loop_send Cons.IH shouldSend_upd shouldSend_upd_fun del: remind_loop.simps)
    next
      case False
      then show ?thesis
        using \<open>shouldSend (sentReminders r) (ID task) (tickNow env)\<close>
        by (simp add: remind_loop_send Cons.IH shouldSend_upd shouldSend_upd_fun del: remind_loop.simps)
    qed
  next
    case False
    then show ?thesis
      by (cases "i = ID task") (simp_all add: remind_loop_skip Cons.IH del: remind_loop.simps)
  qed
qed

lemma remind_loop_notified:
  "notified i (snd (remind_loop env k tasks r)) =
     (if i \<in> ID ` set tasks \<and> shouldSend (sentReminders r) i (tickNow env) then 1 else 0)"
proof (induction tasks arbitrary: k r i)
  case Nil
  then show ?case by simp
next
  case (Cons task rest)
  show ?case
  proof (cases "shouldSend (sentReminders r) (ID task) (tickNow env)")
    case True
    show ?thesis
    proof (cases "i = ID task")
      case True
      then show ?thesis
        using \<open>shouldSend (sentReminders r) (ID task) (tickNow env)\<close>
        by (simp add: remind_loop_send Cons.IH shouldSend_upd shouldSend_upd_fun UpdateStatus_fields
            del: remind_loop.simps)
    next
      case False
      then show ?thesis
        using \<open>shouldSend (sentReminders r) (ID task) (tickNow env)\<close>
        by (simp add: remind_loop_send Cons.IH shouldSend_upd shouldSend_upd_fun UpdateStatus_fields
            del: remind_loop.simps)
    qed
  next
    case False
    then show ?thesis
      by (cases "i = ID task") (simp_all add: remind_loop_skip Cons.IH del: remind_loop.simps)
  qed
qed

lemma remind_loop_events:
  assumes "snd (remind_loop env k tasks r) = pre @ e # post"
  shows "(\<forall>task'. e = NotifierCalled task' \<longrightarrow>
            LedgerRecorded (ID task') (tickNow env) \<in> set pre) \<and>
         (\<forall>task' res. e = SaveTaskReturned task' res \<longrightarrow>
            (\<exists>post'. post = NotifierCalled task' # post') \<and>
            LedgerRecorded (ID task') (tickNow env) \<in> set pre) \<and>
         (\<forall>err. e \<noteq> LogError err)"
  using assms
proof (induction tasks arbitrary: k r pre)
  case Nil
  then show ?case by simp
next
  case (Cons task rest)
  show ?case
  proof (cases "shouldSend (sentReminders r) (ID task) (tickNow env)")
    case False
    then have "snd (remind_loop env (Suc k) rest r) = pre @ e # post"
      using Cons.prems by (simp add: remind_loop_skip del: remind_loop.simps)
    from Cons.IH [OF this] show ?thesis .
  next
    case True
    let ?r2 = "r\<lparr>sentReminders := (sentReminders r)(ID task \<mapsto> tickNow env),
          storage := snd (SaveTask (saveIO env k) (UpdateStatus task (clockAt env k))
                           (storage r))\<rparr>"
    let ?t = "UpdateStatus task (clockAt env k)"
    let ?L = "LedgerRecorded (ID task) (tickNow env)"
    let ?S = "SaveTaskReturned ?t (fst (SaveTask (saveIO env k) ?t (storage r)))"
    let ?rest = "snd (remind_loop env (Suc k) rest ?r2)"
    have eq: "?L # ?S # NotifierCalled ?t # ?rest = pre @ e # post"
      using Cons.prems True by (simp add: remind_loop_send del: remind_loop.simps)
    consider (a) "pre = []" "e = ?L"
      | (b) "pre = [?L]" "e = ?S" "post = NotifierCalled ?t # ?rest"
      | (c) "pre = [?L, ?S]" "e = NotifierCalled ?t"
      | (d) pre' where "pre = ?L # ?S # NotifierCalled ?t # pre'" "?rest = pre' @ e # post"
      using eq by (auto simp: Cons_eq_append_conv)
    then show ?thesis
    proof cases
      case a
      then show ?thesis by simp
    next
      case b
      then show ?thesis by (simp add: UpdateStatus_fields)
    next
      case c
      then show ?thesis by (simp add: UpdateStatus_fields)
    next
      case d
      from Cons.IH [OF d(2)] show ?thesis using d(1) by simp
    qed
  qed
qed

lemma remind_loop_fired:
  "SaveTaskReturned task' res \<in> set (snd (remind_loop env k tasks r)) \<Longrightarrow>
     ID task' \<in> ID ` set tasks \<and> shouldSend (sentReminders r) (ID task') (tickNow env)"
proof (induction tasks arbitrary: k r)
  case Nil
  then show ?case by simp
next
  case (Cons task rest)
  show ?case
  proof (cases "shouldSend (sentReminders r) (ID task) (tickNow env)")
    case False
    then show ?thesis
      using Cons.prems Cons.IH [of "Suc k" r]
      by (simp add: remind_loop_skip del: remind_loop.simps)
  next
    case True
    let ?r2 = "r\<lparr>sentReminders := (sentReminders r)(ID task \<mapsto> tickNow env),
          storage := snd (SaveTask (saveIO env k) (UpdateStatus task (clockAt env k))
                           (storage r))\<rparr>"
    from Cons.prems True consider
      (hd) "task' = UpdateStatus task (clockAt env k)"
      | (tl) "SaveTaskReturned task' res \<in> set (snd (remind_loop env (Suc k) rest ?r2))"
      by (auto simp: remind_loop_send simp del: remind_loop.simps)
    then show ?thesis
    proof cases
      case hd
      then show ?thesis using True by (simp add: UpdateStatus_fields)
    next
      case tl
      from Cons.IH [OF tl] show ?thesis
        by (simp add: shouldSend_upd shouldSend_upd_fun)
    qed
  qed
qed

lemma upsert_keeps:
  assumes "x \<in> set ts"
  shows "\<exists>x' \<in> set (case find_task ts (ID y) of Some j \<Rightarrow> ts[j := y] | None \<Rightarrow> ts @ [y]).
           x' = x \<or> (x' = y \<and> ID y = ID x)"
proof (cases "find_task ts (ID y)")
  case None
  then show ?thesis using assms by auto
next
  case (Some j)
  note fj = find_task_Some [OF Some]
  from assms obtain m where m: "m < length ts" "ts ! m = x"
    by (auto simp: in_set_conv_nth)
  show ?thesis
  proof (cases "m = j")
    case True
    have "y \<in> set (ts[j := y])" using fj by (simp add: set_update_memI)
    then show ?thesis using Some True m fj by auto
  next
    case False
    have "(ts[j := y]) ! m = x" using False m by simp
    then have "x \<in> set (ts[j := y])" using m by (metis length_list_update nth_mem)
    then show ?thesis using Some by auto
  qed
qed

lemma SaveTask_keeps_due:
  assumes inv: "\<exists>x \<in> set (stored_tasks d).
                  ID x = i \<and> ReminderAt x < n \<and> Status x \<noteq> TaskStatusCompleted"
    and w: "dataWrite env \<noteq> WriteFails"
    and y: "ReminderAt y < n \<and> Status y \<noteq> TaskStatusCompleted"
  shows "\<exists>x \<in> set (stored_tasks (snd (SaveTask env y d))).
           ID x = i \<and> ReminderAt x < n \<and> Status x \<noteq> TaskStatusCompleted"
proof -
  from inv obtain x where x: "x \<in> set (stored_tasks d)" "ID x = i" "ReminderAt x < n"
    "Status x \<noteq> TaskStatusCompleted" by blast
  then obtain ts where ts: "tasksFile d = Stored ts" "stored_tasks d = ts"
    by (cases "tasksFile d") (auto simp: stored_tasks_def)
  let ?new = "case find_task ts (ID y) of Some j \<Rightarrow> ts[j := y] | None \<Rightarrow> ts @ [y]"
  have new: "\<exists>x' \<in> set ?new. ID x' = i \<and> ReminderAt x' < n \<and> Status x' \<noteq> TaskStatusCompleted"
    using upsert_keeps [of x ts y] x y ts by auto
  have "snd (SaveTask env y d) = d \<or> stored_tasks (snd (SaveTask env y d)) = ?new"
    using w ts by (cases "dataWrite env")
      (auto simp: SaveTask_def loadTasks_def saveTasks_def stored_tasks_def)
  then show ?thesis using new inv by auto
qed

lemma remind_loop_keeps_due:
  assumes "\<exists>x \<in> set (stored_tasks (storage r)).
             ID x = i \<and> ReminderAt x < n \<and> Status x \<noteq> TaskStatusCompleted"
    and "\<forall>k. dataWrite (saveIO env k) \<noteq> WriteFails"
    and "\<forall>task \<in> set tasks. ReminderAt task < n \<and> Status task \<noteq> TaskStatusCompleted"
  shows "\<exists>x \<in> set (stored_tasks (storage (fst (remind_loop env k tasks r)))).
           ID x = i \<and> ReminderAt x < n \<and> Status x \<noteq> TaskStatusCompleted"
  using assms
proof (induction tasks arbitrary: k r)
  case Nil
  then show ?case by simp
next
  case (Cons task rest)
  show ?case
  proof (cases "shouldSend (sentReminders r) (ID task) (tickNow env)")
    case False
    then show ?thesis
      using Cons.prems Cons.IH [of r "Suc k"]
      by (simp add: remind_loop_skip del: remind_loop.simps)
  next
    case True
    let ?t = "UpdateStatus task (clockAt env k)"
    let ?r2 = "r\<lparr>sentReminders := (sentReminders r)(ID task \<mapsto> tickNow env),
          storage := snd (SaveTask (saveIO env k) ?t (storage r))\<rparr>"
    have t: "ReminderAt ?t < n \<and> Status ?t \<noteq> TaskStatusCompleted"
      using Cons.prems(3) by (simp add: UpdateStatus_fields)
    have w: "dataWrite (saveIO env k) \<noteq> WriteFails"
      using Cons.prems(2) by simp
    have "\<exists>x \<in> set (stored_tasks (storage ?r2)).
           ID x = i \<and> ReminderAt x < n \<and> Status x \<noteq> TaskStatusCompleted"
      using SaveTask_keeps_due [OF Cons.prems(1) w t] by simp
    from Cons.IH [OF this Cons.prems(2)] Cons.prems(3)
    show ?thesis using True by (simp add: remind_loop_send del: remind_loop.simps)
  qed
qed

subsection \<open>Deduplication\<close>

lemma GetTasksWithRemindersBy_Stored:
  "tasksFile d = Stored ts \<Longrightarrow> \<not> readErr qio \<Longrightarrow>
     GetTasksWithRemindersBy qio n d =
       (Inr (filter (\<lambda>task. ReminderAt task < n \<and> Status task \<noteq> TaskStatusCompleted) ts), d)"
  by (simp add: GetTasksWithRemindersBy_def loadTasks_def time_Before_def)

lemma checkReminders_Inl:
  "GetTasksWithRemindersBy (queryIO env) (wall (tickNow env)) (storage r) = (Inl err, d) \<Longrightarrow>
     checkReminders env r = (r\<lparr>storage := d\<rparr>, [LogError err])"
  by (simp add: checkReminders_def)

lemma checkReminders_Inr:
  "GetTasksWithRemindersBy (queryIO env) (wall (tickNow env)) (storage r) = (Inr tasks, d) \<Longrightarrow>
     checkReminders env r =
       ((fst (remind_loop env 0 tasks (r\<lparr>storage := d\<rparr>)))
          \<lparr>sentReminders :=
             sweep (tickNow env) (sentReminders (fst (remind_loop env 0 tasks (r\<lparr>storage := d\<rparr>))))\<rparr>,
        snd (remind_loop env 0 tasks (r\<lparr>storage := d\<rparr>)))"
  by (simp add: checkReminders_def case_prod_beta)

lemma notified_append: "notified i (xs @ ys) = notified i xs + notified i ys"
  by (induction i xs rule: notified.induct) simp_all

lemma sweep_now: "m i = Some n \<Longrightarrow> sweep n m i = Some n"
  by (simp add: sweep_def reading_Sub_self)

lemma checkReminders_not_due:
  assumes "\<not> shouldSend (sentReminders r) i (tickNow env)"
  shows "notified i (snd (checkReminders env r)) = 0"
proof (cases "GetTasksWithRemindersBy (queryIO env) (wall (tickNow env)) (storage r)")
  case (Pair res d)
  then show ?thesis
    using assms
    by (cases res) (simp_all add: checkReminders_Inl checkReminders_Inr remind_loop_notified)
qed

lemma checkReminders_due:
  assumes q: "GetTasksWithRemindersBy (queryIO env) (wall (tickNow env)) (storage r) = (Inr tasks, d)"
    and i: "i \<in> ID ` set tasks"
    and s: "shouldSend (sentReminders r) i (tickNow env)"
  shows "notified i (snd (checkReminders env r)) = 1"
    and "sentReminders (fst (checkReminders env r)) i = Some (tickNow env)"
    and "storage (fst (checkReminders env r)) = storage (fst (remind_loop env 0 tasks (r\<lparr>storage := d\<rparr>)))"
  using i s
  by (simp_all add: checkReminders_Inr [OF q] remind_loop_notified remind_loop_ledger sweep_now)

lemma checkReminders_order:
  assumes "snd (checkReminders env r) = pre @ NotifierCalled task' # post"
  shows "LedgerRecorded (ID task') (tickNow env) \<in> set pre"
proof (cases "GetTasksWithRemindersBy (queryIO env) (wall (tickNow env)) (storage r)")
  case (Pair res d)
  show ?thesis
  proof (cases res)
    case (Inl err)
    then have "snd (checkReminders env r) = [LogError err]"
      using Pair by (simp add: checkReminders_Inl)
    then show ?thesis using assms by (simp add: append_eq_Cons_conv)
  next
    case (Inr tasks)
    then have "snd (remind_loop env 0 tasks (r\<lparr>storage := d\<rparr>)) =
        pre @ NotifierCalled task' # post"
      using Pair assms by (simp add: checkReminders_Inr)
    from remind_loop_events [OF this] show ?thesis by simp
  qed
qed

text \<open>
  C1, as the claim states it, fails. The ledger test \<open>now.Sub(lastSent)\<close> measures the
  separation of two executions on the monotonic clock of the process, not on the wall
  clock that the reminder is compared with. Take the store with two tasks, a fresh
  service (task \<open>t1\<close> never reminded, its reminder in the past, not Completed) and every
  system call succeeding. Two consecutive ticks whose wall clocks are seven hours apart,
  the machine suspended in between so that the monotonic clock advanced by one minute,
  call the notifier once, not twice. Two consecutive ticks whose wall clocks are 1000
  nanoseconds apart, the wall clock set back while seven hours went by on the monotonic
  clock, call it twice, not once. The remaining lines are ticks seven hours apart on both
  clocks, or with the wall clock set back before the reminder, that call the notifier
  fewer than two times: a \<open>SaveTask\<close> of the first tick leaves a partial file, the second
  query or the first query cannot read the file, both queries cannot (no call at all,
  within six hours), the second tick's wall clock is before the reminder.
\<close>

theorem checkReminders_dedup_counterexample:
  "sentReminders (fresh_service disk_both) (ID task_ab) = None \<and>
   task_ab \<in> set (stored_tasks disk_both) \<and>
   ReminderAt task_ab < 1000 \<and>
   Status task_ab \<noteq> TaskStatusCompleted \<and>
   (1000 + 7 * Hour) - 1000 > 6 * Hour \<and>
   notified (ID task_ab)
     (two_ticks (clock_tick 1000 1000) (clock_tick (1000 + 7 * Hour) (1000 + 60000000000))
        (fresh_service disk_both)) = 1 \<and>
   (2000 :: int) - 1000 < 6 * Hour \<and>
   notified (ID task_ab)
     (two_ticks (clock_tick 1000 1000) (clock_tick 2000 (1000 + 7 * Hour))
        (fresh_service disk_both)) = 2 \<and>
   notified (ID task_ab)
     (two_ticks (partial_write_tick 1000) (quiet_tick (1000 + 7 * Hour))
        (fresh_service disk_both)) = 1 \<and>
   notified (ID task_ab)
     (two_ticks (quiet_tick 1000) (unreadable_tick (1000 + 7 * Hour))
        (fresh_service disk_both)) = 1 \<and>
   notified (ID task_ab)
     (two_ticks (unreadable_tick 1000) (quiet_tick (1000 + 7 * Hour))
        (fresh_service disk_both)) = 1 \<and>
   notified (ID task_ab)
     (two_ticks (unreadable_tick 1000) (unreadable_tick 2000)
        (fresh_service disk_both)) = 0 \<and>
   notified (ID task_ab)
     (two_ticks (clock_tick 1000 1000) (clock_tick 40 (1000 + 7 * Hour))
        (fresh_service disk_both)) = 1"
  by (simp add: tick_eval two_ticks_def)

text \<open>
  C1, amended. Take a stored task whose reminder is before the wall clock of the first
  tick and whose status is not Completed, and which is eligible when the first of two
  consecutive executions starts (the ledger holds no entry for it, or one more than six
  hours older on the monotonic clock), the tasks file being there and read by the first
  query. The separation of the two executions is measured on the monotonic clock. If it
  is at most six hours, the notifier is called exactly once for the task's identifier,
  by the first execution, and not by the second. If it is more than six hours, the wall
  clock has not gone back between the ticks, no \<open>SaveTask\<close> of the first execution leaves
  a partial file and the second query reads the file, the notifier is called exactly
  once in each execution, twice in total. In both executions every call of the notifier
  comes after the ledger entry of that task has been recorded.
\<close>

theorem checkReminders_dedup:
  assumes stored: "tasksFile (storage r) = Stored ts"
    and mem: "t \<in> set ts"
    and past: "ReminderAt t < wall (tickNow e1)"
    and opn: "Status t \<noteq> TaskStatusCompleted"
    and due: "shouldSend (sentReminders r) (ID t) (tickNow e1)"
    and q1: "\<not> readErr (queryIO e1)"
  shows
    "(mono (tickNow e2) - mono (tickNow e1) \<le> 6 * Hour \<longrightarrow>
        notified (ID t) (snd (checkReminders e1 r)) = 1 \<and>
        notified (ID t) (snd (checkReminders e2 (fst (checkReminders e1 r)))) = 0 \<and>
        notified (ID t) (two_ticks e1 e2 r) = 1) \<and>
     (mono (tickNow e2) - mono (tickNow e1) > 6 * Hour \<and>
      wall (tickNow e1) \<le> wall (tickNow e2) \<and>
      (\<forall>k. dataWrite (saveIO e1 k) \<noteq> WriteFails) \<and>
      \<not> readErr (queryIO e2) \<longrightarrow>
        notified (ID t) (snd (checkReminders e1 r)) = 1 \<and>
        notified (ID t) (snd (checkReminders e2 (fst (checkReminders e1 r)))) = 1 \<and>
        notified (ID t) (two_ticks e1 e2 r) = 2) \<and>
     (\<forall>pre task' post.
        snd (checkReminders e1 r) = pre @ NotifierCalled task' # post \<longrightarrow>
          LedgerRecorded (ID task') (tickNow e1) \<in> set pre) \<and>
     (\<forall>pre task' post.
        snd (checkReminders e2 (fst (checkReminders e1 r))) = pre @ NotifierCalled task' # post \<longrightarrow>
          LedgerRecorded (ID task') (tickNow e2) \<in> set pre)"
proof -
  let ?P = "\<lambda>n task. ReminderAt task < n \<and> Status task \<noteq> TaskStatusCompleted"
  let ?r1 = "fst (checkReminders e1 r)"
  have q: "GetTasksWithRemindersBy (queryIO e1) (wall (tickNow e1)) (storage r) =
      (Inr (filter (?P (wall (tickNow e1))) ts), storage r)"
    using stored q1 by (rule GetTasksWithRemindersBy_Stored)
  have i: "ID t \<in> ID ` set (filter (?P (wall (tickNow e1))) ts)"
    using mem past opn by auto
  note first = checkReminders_due [OF q i due]
  have once: "notified (ID t) (snd (checkReminders e2 ?r1)) = 0"
    if "mono (tickNow e2) - mono (tickNow e1) \<le> 6 * Hour"
  proof -
    have "\<not> shouldSend (sentReminders ?r1) (ID t) (tickNow e2)"
      using that first(2) by (simp add: shouldSend_def reading_Sub_gt)
    then show ?thesis by (rule checkReminders_not_due)
  qed
  have twice: "notified (ID t) (snd (checkReminders e2 ?r1)) = 1"
    if far: "mono (tickNow e2) - mono (tickNow e1) > 6 * Hour"
      and later: "wall (tickNow e1) \<le> wall (tickNow e2)"
      and w: "\<forall>k. dataWrite (saveIO e1 k) \<noteq> WriteFails"
      and q2: "\<not> readErr (queryIO e2)"
  proof -
    have "\<exists>x \<in> set (stored_tasks (storage (r\<lparr>storage := storage r\<rparr>))).
        ID x = ID t \<and> ReminderAt x < wall (tickNow e1) \<and> Status x \<noteq> TaskStatusCompleted"
      using stored mem past opn by (auto simp: stored_tasks_def)
    from remind_loop_keeps_due [OF this w, of "filter (?P (wall (tickNow e1))) ts" 0]
    obtain x where x: "x \<in> set (stored_tasks (storage ?r1))" "ID x = ID t"
      "ReminderAt x < wall (tickNow e1)" "Status x \<noteq> TaskStatusCompleted"
      using first(3) by auto
    then obtain ts1 where ts1: "tasksFile (storage ?r1) = Stored ts1" "x \<in> set ts1"
      by (cases "tasksFile (storage ?r1)") (auto simp: stored_tasks_def)
    have q': "GetTasksWithRemindersBy (queryIO e2) (wall (tickNow e2)) (storage ?r1) =
        (Inr (filter (?P (wall (tickNow e2))) ts1), storage ?r1)"
      using ts1(1) q2 by (rule GetTasksWithRemindersBy_Stored)
    have "x \<in> set (filter (?P (wall (tickNow e2))) ts1)"
      using x ts1(2) later by simp
    then have "ID x \<in> ID ` set (filter (?P (wall (tickNow e2))) ts1)"
      by (rule imageI)
    then have i': "ID t \<in> ID ` set (filter (?P (wall (tickNow e2))) ts1)"
      using x(2) by simp
    have s': "shouldSend (sentReminders ?r1) (ID t) (tickNow e2)"
      using far first(2) by (simp add: shouldSend_def reading_Sub_gt)
    show ?thesis by (rule checkReminders_due(1) [OF q' i' s'])
  qed
  show ?thesis
    using first(1) once twice checkReminders_order [of e1 r]
      checkReminders_order [of e2 ?r1]
    by (simp add: notified_append two_ticks_def)
qed

theorem checkReminders_dedup_witness:
  "tasksFile (storage (fresh_service disk_both)) = Stored [task_ab, task_done] \<and>
   ReminderAt task_ab < wall (tickNow (quiet_tick 1000)) \<and>
   Status task_ab \<noteq> TaskStatusCompleted \<and>
   shouldSend (sentReminders (fresh_service disk_both)) (ID task_ab) (tickNow (quiet_tick 1000)) \<and>
   notified (ID task_ab) (snd (checkReminders (quiet_tick 1000) (fresh_service disk_both))) = 1 \<and>
   notified (ID task_ab)
     (snd (checkReminders (clock_tick (1000 + 7 * Hour) (1000 + 60000000000))
             (fst (checkReminders (quiet_tick 1000) (fresh_service disk_both))))) = 0 \<and>
   notified (ID task_ab)
     (two_ticks (quiet_tick 1000) (clock_tick (1000 + 7 * Hour) (1000 + 60000000000))
        (fresh_service disk_both)) = 1 \<and>
   notified (ID task_ab)
     (snd (checkReminders (quiet_tick (1000 + 7 * Hour))
             (fst (checkReminders (quiet_tick 1000) (fresh_service disk_both))))) = 1 \<and>
   notified (ID task_ab)
     (two_ticks (quiet_tick 1000) (quiet_tick (1000 + 7 * Hour))
        (fresh_service disk_both)) = 2"
proof -
  have stored: "tasksFile (storage (fresh_service disk_both)) = Stored [task_ab, task_done]"
    by (simp add: fresh_service_def disk_both_def)
  have mem: "task_ab \<in> set [task_ab, task_done]"
    by simp
  have past: "ReminderAt task_ab < wall (tickNow (quiet_tick 1000))"
    by (simp add: task_ab_def quiet_tick_def clock_tick_def)
  have opn: "Status task_ab \<noteq> TaskStatusCompleted"
    by (simp add: task_ab_def TaskStatusPending_def TaskStatusCompleted_def)
  have due: "shouldSend (sentReminders (fresh_service disk_both)) (ID task_ab)
      (tickNow (quiet_tick 1000))"
    by (simp add: shouldSend_def fresh_service_def)
  have q1: "\<not> readErr (queryIO (quiet_tick 1000))"
    by (simp add: quiet_tick_def clock_tick_def io_ok_def)
  have near: "mono (tickNow (clock_tick (1000 + 7 * Hour) (1000 + 60000000000))) -
      mono (tickNow (quiet_tick 1000)) \<le> 6 * Hour"
    by (simp add: quiet_tick_def clock_tick_def Hour_def)
  have far: "mono (tickNow (quiet_tick (1000 + 7 * Hour))) - mono (tickNow (quiet_tick 1000))
        > 6 * Hour \<and>
      wall (tickNow (quiet_tick 1000)) \<le> wall (tickNow (quiet_tick (1000 + 7 * Hour))) \<and>
      (\<forall>k. dataWrite (saveIO (quiet_tick 1000) k) \<noteq> WriteFails) \<and>
      \<not> readErr (queryIO (quiet_tick (1000 + 7 * Hour)))"
    by (simp add: quiet_tick_def clock_tick_def io_ok_def Hour_def)
  from checkReminders_dedup [OF stored mem past opn due q1,
      of "clock_tick (1000 + 7 * Hour) (1000 + 60000000000)"] near
  have once: "notified (ID task_ab)
        (snd (checkReminders (quiet_tick 1000) (fresh_service disk_both))) = 1 \<and>
      notified (ID task_ab)
        (snd (checkReminders (clock_tick (1000 + 7 * Hour) (1000 + 60000000000))
               (fst (checkReminders (quiet_tick 1000) (fresh_service disk_both))))) = 0 \<and>
      notified (ID task_ab)
        (two_ticks (quiet_tick 1000) (clock_tick (1000 + 7 * Hour) (1000 + 60000000000))
           (fresh_service disk_both)) = 1"
    by blast
  from checkReminders_dedup [OF stored mem past opn due q1, of "quiet_tick (1000 + 7 * Hour)"] far
  have twice: "notified (ID task_ab)
        (snd (checkReminders (quiet_tick (1000 + 7 * Hour))
               (fst (checkReminders (quiet_tick 1000) (fresh_service disk_both))))) = 1 \<and>
      notified (ID task_ab)
        (two_ticks (quiet_tick 1000) (quiet_tick (1000 + 7 * Hour))
           (fresh_service disk_both)) = 2"
    by blast
  show ?thesis
    using stored past opn due once twice by blast
qed

subsection \<open>A failing save inside a tick\<close>

text \<open>
  C10. Whenever, inside a tick, \<open>SaveTask\<close> returns an error for a task, the very next
  thing the tick does is call the notifier with that task; the ledger entry recorded for
  the task just before is still there when the tick ends, and nothing is logged. The
  witness shows a promotion to Overdue lost this way: the notifier gets the task as
  Overdue while the store still holds it as Pending.
\<close>

theorem checkReminders_drops_SaveTask_error:
  "snd (checkReminders env r) = pre @ SaveTaskReturned task' (Some err) # post \<longrightarrow>
     (\<exists>post'. post = NotifierCalled task' # post') \<and>
     LedgerRecorded (ID task') (tickNow env) \<in> set pre \<and>
     sentReminders (fst (checkReminders env r)) (ID task') = Some (tickNow env) \<and>
     (\<forall>e. LogError e \<notin> set (snd (checkReminders env r)))"
proof
  assume ev: "snd (checkReminders env r) = pre @ SaveTaskReturned task' (Some err) # post"
  obtain res d where q: "GetTasksWithRemindersBy (queryIO env) (wall (tickNow env)) (storage r) = (res, d)"
    by (cases "GetTasksWithRemindersBy (queryIO env) (wall (tickNow env)) (storage r)")
  show "(\<exists>post'. post = NotifierCalled task' # post') \<and>
     LedgerRecorded (ID task') (tickNow env) \<in> set pre \<and>
     sentReminders (fst (checkReminders env r)) (ID task') = Some (tickNow env) \<and>
     (\<forall>e. LogError e \<notin> set (snd (checkReminders env r)))"
  proof (cases res)
    case (Inl e)
    then have "snd (checkReminders env r) = [LogError e]"
      using q by (simp add: checkReminders_Inl)
    then show ?thesis using ev by (simp add: append_eq_Cons_conv)
  next
    case (Inr tasks)
    let ?loop = "remind_loop env 0 tasks (r\<lparr>storage := d\<rparr>)"
    have c: "checkReminders env r =
        ((fst ?loop)\<lparr>sentReminders := sweep (tickNow env) (sentReminders (fst ?loop))\<rparr>, snd ?loop)"
      using q Inr by (simp add: checkReminders_Inr)
    have ev': "snd ?loop = pre @ SaveTaskReturned task' (Some err) # post"
      using ev c by simp
    have a: "(\<exists>post'. post = NotifierCalled task' # post') \<and>
        LedgerRecorded (ID task') (tickNow env) \<in> set pre"
      using remind_loop_events [OF ev'] by simp
    have "SaveTaskReturned task' (Some err) \<in> set (snd ?loop)"
      using ev' by simp
    from remind_loop_fired [OF this]
    have "sentReminders (fst ?loop) (ID task') = Some (tickNow env)"
      by (simp add: remind_loop_ledger)
    then have b: "sentReminders (fst (checkReminders env r)) (ID task') = Some (tickNow env)"
      using c by (simp add: sweep_now)
    have "LogError e \<notin> set (snd ?loop)" for e
    proof
      assume "LogError e \<in> set (snd ?loop)"
      then obtain xs ys where "snd ?loop = xs @ LogError e # ys"
        by (auto simp: in_set_conv_decomp)
      from remind_loop_events [OF this] show False by simp
    qed
    then show ?thesis using a b c by simp
  qed
qed

theorem checkReminders_drops_SaveTask_error_witness:
  "snd (checkReminders (failing_tick 200) (fresh_service disk_both)) =
     [LedgerRecorded ''t1'' \<lparr>wall = 200, mono = 200\<rparr>] @
     SaveTaskReturned (task_ab\<lparr>Status := TaskStatusOverdue\<rparr>) (Some WriteFailed) #
     [NotifierCalled (task_ab\<lparr>Status := TaskStatusOverdue\<rparr>)] \<and>
   sentReminders (fst (checkReminders (failing_tick 200) (fresh_service disk_both)))
     (ID (task_ab\<lparr>Status := TaskStatusOverdue\<rparr>)) = Some (tickNow (failing_tick 200)) \<and>
   stored_tasks (storage (fst (checkReminders (failing_tick 200) (fresh_service disk_both)))) =
     [task_ab, task_done] \<and>
   Status task_ab = TaskStatusPending"
proof -
  have ev: "snd (checkReminders (failing_tick 200) (fresh_service disk_both)) =
     [LedgerRecorded ''t1'' \<lparr>wall = 200, mono = 200\<rparr>] @
     SaveTaskReturned (task_ab\<lparr>Status := TaskStatusOverdue\<rparr>) (Some WriteFailed) #
     [NotifierCalled (task_ab\<lparr>Status := TaskStatusOverdue\<rparr>)]"
    by (simp add: tick_eval)
  have st: "stored_tasks (storage (fst (checkReminders (failing_tick 200)
      (fresh_service disk_both)))) = [task_ab, task_done]"
    by (simp add: tick_eval)
  have p: "Status task_ab = TaskStatusPending"
    by (simp add: task_ab_def)
  from checkReminders_drops_SaveTask_error
    [of "failing_tick 200" "fresh_service disk_both" "[LedgerRecorded ''t1'' \<lparr>wall = 200, mono = 200\<rparr>]"
      "task_ab\<lparr>Status := TaskStatusOverdue\<rparr>" WriteFailed
      "[NotifierCalled (task_ab\<lparr>Status := TaskStatusOverdue\<rparr>)]"] ev
  have "sentReminders (fst (checkReminders (failing_tick 200) (fresh_service disk_both)))
     (ID (task_ab\<lparr>Status := TaskStatusOverdue\<rparr>)) = Some (tickNow (failing_tick 200))"
    by blast
  then show ?thesis using ev st p by blast
qed

end
